theory Spec2Isabelle
  imports Complex_Main "HOL-Library.AList"
begin

section \<open>Command tree (types/core.ts)\<close>

text \<open>
  A node of the command tree. The three variants of the TypeScript union share one
  object shape whose variant-specific fields are optional; the tree utilities and the
  store read the nodes through exactly these optional fields (\<open>item.children\<close>,
  \<open>item.prefixes\<close>, \<open>command.type\<close>). The \<open>execute\<close> callback of an action is
  opaque user code: it is represented by how its call ends. The fields carry the
  prefix \<open>cmd_\<close> (\<open>id\<close>, \<open>name\<close> and \<open>type\<close> are taken in HOL).
\<close>

datatype cmd_type = action | portal | category

datatype exec_outcome = Returns | Throws | Rejects

datatype command = Command
  (cmd_id: string)
  (cmd_name: string)
  (cmd_type: cmd_type)
  (cmd_keywords: "string list option")
  (cmd_prefixes: "string list option")
  (cmd_children: "command list option")
  (cmd_showSearchInput: "bool option")
  (cmd_execute: exec_outcome)

section \<open>Tree utilities (lib/utils.ts)\<close>

text \<open>
  \<open>findNavigableById\<close>: the \<open>for\<close> loop over \<open>items\<close>, returning the item itself on
  an id match, else the result of the recursive search of its children when that is
  found, else going on with the next item; \<open>null\<close> is \<open>None\<close>.
\<close>

fun findNavigableById :: "string \<Rightarrow> command list \<Rightarrow> command option" where
  "findNavigableById i [] = None"
| "findNavigableById i (Command cid nm ty kw px ch ssi ex # rest) =
     (if cid = i then Some (Command cid nm ty kw px ch ssi ex)
      else (case ch of
              None \<Rightarrow> findNavigableById i rest
            | Some cs \<Rightarrow>
                (case findNavigableById i cs of
                   Some found \<Rightarrow> Some found
                 | None \<Rightarrow> findNavigableById i rest)))"

text \<open>
  \<open>flattenNavigables\<close>: the inner \<open>recurse\<close> pushes onto the shared array \<open>result\<close>;
  the array is passed in and returned. Children are visited only when the array of
  children exists and is non-empty.
\<close>

fun recurse :: "command list \<Rightarrow> command list \<Rightarrow> command list" where
  "recurse [] result = result"
| "recurse (Command cid nm ty kw px ch ssi ex # rest) result =
     recurse rest
       (case ch of
          None \<Rightarrow> result @ [Command cid nm ty kw px ch ssi ex]
        | Some cs \<Rightarrow>
            (if length cs > 0
             then recurse cs (result @ [Command cid nm ty kw px ch ssi ex])
             else result @ [Command cid nm ty kw px ch ssi ex]))"

definition flattenNavigables :: "command list \<Rightarrow> command list" where
  "flattenNavigables navigables = recurse navigables []"

text \<open>
  The specification's reading of flattening, used to compare against the code: the
  pre-order listing of a forest (a node, then the listing of its children, then the
  listing of its later siblings), and the number of nodes of the forest.
\<close>

fun preorder :: "command list \<Rightarrow> command list" where
  "preorder [] = []"
| "preorder (Command cid nm ty kw px ch ssi ex # rest) =
     Command cid nm ty kw px ch ssi ex
       # (case ch of None \<Rightarrow> [] | Some cs \<Rightarrow> preorder cs) @ preorder rest"

fun node_count :: "command list \<Rightarrow> nat" where
  "node_count [] = 0"
| "node_count (Command cid nm ty kw px ch ssi ex # rest) =
     Suc ((case ch of None \<Rightarrow> 0 | Some cs \<Rightarrow> node_count cs) + node_count rest)"

section \<open>Navigation store (types/store.ts)\<close>

subsection \<open>State\<close>

datatype ViewType = root | portal_view | category_view

record ViewState =
  vtype :: ViewType
  portalId :: "string option"
  categoryId :: "string option"
  query :: "string option"
  showSearchInput :: "bool option"

datatype SearchAlgorithm = commandscore | fuse

datatype ScrollTrigger = keyboard_trigger | auto_trigger | hover_trigger

datatype Direction = up | down

record item_ref =
  item_id :: string
  item_index :: int

text \<open>
  \<open>CommandState\<close>. An optional field is an \<open>option\<close>; \<open>activeId\<close> is
  \<open>string | null | undefined\<close>, with \<open>None\<close> for both \<open>null\<close> and \<open>undefined\<close>. The
  field \<open>open\<close> is \<open>is_open\<close> here, and the \<open>type\<close> of a view is \<open>vtype\<close>. The
  opaque configuration objects \<open>fuseConfig\<close> and \<open>virtualizationConfig\<close> are left
  out: no function of the store reads them, and only a \<open>setState\<close> whose partial
  names them would change them.
\<close>

record CommandState =
  is_open :: bool
  activeId :: "string option"
  loop :: bool
  view :: ViewState
  history :: "ViewState list"
  recentCommands :: "string list"
  lastNavigationWasBack :: "bool option"
  searchLibrary :: "SearchAlgorithm option"
  virtualization :: "bool option"
  items :: "item_ref list option"
  scrollTrigger :: "ScrollTrigger option"
  keyboardNavigationActive :: "bool option"
  navigationDirection :: "Direction option"

text \<open>
  \<open>Partial<CommandState>\<close>: for each field, \<open>None\<close> when the key is absent and
  \<open>Some v\<close> when the object carries the key with value \<open>v\<close>.
\<close>

record Partial =
  p_is_open :: "bool option"
  p_activeId :: "string option option"
  p_loop :: "bool option"
  p_view :: "ViewState option"
  p_history :: "ViewState list option"
  p_recentCommands :: "string list option"
  p_lastNavigationWasBack :: "bool option option"
  p_searchLibrary :: "SearchAlgorithm option option"
  p_virtualization :: "bool option option"
  p_items :: "item_ref list option option"
  p_scrollTrigger :: "ScrollTrigger option option"
  p_keyboardNavigationActive :: "bool option option"
  p_navigationDirection :: "Direction option option"

definition empty_partial :: Partial where
  "empty_partial =
     \<lparr>p_is_open = None, p_activeId = None, p_loop = None, p_view = None,
      p_history = None, p_recentCommands = None, p_lastNavigationWasBack = None,
      p_searchLibrary = None, p_virtualization = None, p_items = None,
      p_scrollTrigger = None, p_keyboardNavigationActive = None,
      p_navigationDirection = None\<rparr>"

text \<open>The object spread \<open>{ ...state, ...partial }\<close>: keys of \<open>partial\<close> win.\<close>

definition spread :: "CommandState \<Rightarrow> Partial \<Rightarrow> CommandState" where
  "spread st p =
     \<lparr>is_open = (case p_is_open p of None \<Rightarrow> is_open st | Some v \<Rightarrow> v),
      activeId = (case p_activeId p of None \<Rightarrow> activeId st | Some v \<Rightarrow> v),
      loop = (case p_loop p of None \<Rightarrow> loop st | Some v \<Rightarrow> v),
      view = (case p_view p of None \<Rightarrow> view st | Some v \<Rightarrow> v),
      history = (case p_history p of None \<Rightarrow> history st | Some v \<Rightarrow> v),
      recentCommands =
        (case p_recentCommands p of None \<Rightarrow> recentCommands st | Some v \<Rightarrow> v),
      lastNavigationWasBack =
        (case p_lastNavigationWasBack p of None \<Rightarrow> lastNavigationWasBack st | Some v \<Rightarrow> v),
      searchLibrary =
        (case p_searchLibrary p of None \<Rightarrow> searchLibrary st | Some v \<Rightarrow> v),
      virtualization =
        (case p_virtualization p of None \<Rightarrow> virtualization st | Some v \<Rightarrow> v),
      items = (case p_items p of None \<Rightarrow> items st | Some v \<Rightarrow> v),
      scrollTrigger =
        (case p_scrollTrigger p of None \<Rightarrow> scrollTrigger st | Some v \<Rightarrow> v),
      keyboardNavigationActive =
        (case p_keyboardNavigationActive p of
           None \<Rightarrow> keyboardNavigationActive st | Some v \<Rightarrow> v),
      navigationDirection =
        (case p_navigationDirection p of None \<Rightarrow> navigationDirection st | Some v \<Rightarrow> v)\<rparr>"

subsection \<open>The store and the environment it acts on\<close>

text \<open>
  A subscriber callback is opaque; a call of it either returns or throws. Callbacks
  and \<open>onClose\<close> are identified by a number, and every call is written to a log, so
  that who was called, and how often, can be stated.
\<close>

datatype callback_outcome = CbReturns | CbThrows

record SubscriptionMeta =
  callback :: callback_outcome
  sub_id :: nat
  mountedAt :: nat
  lastActive :: nat

text \<open>
  What \<open>queueMicrotask\<close> receives: the notification pass of \<open>notifySubscribers\<close>,
  or the removal of the subscribers that threw during a pass.
\<close>

datatype microtask = NotifyPass | Cleanup "nat list"

text \<open>
  The closure variables of \<open>createStore\<close> (\<open>state\<close>, \<open>storeConfig\<close>,
  \<open>subscribers\<close>, \<open>nextSubscriptionId\<close>, and \<open>initialState\<close>), followed by the
  environment: the microtask queue, the logs of calls of subscriber callbacks, of
  \<open>onClose\<close> and of \<open>selectCommand\<close>, the value \<open>Date.now()\<close> returns, the two
  keys of \<open>chrome.storage.local\<close> the store uses, whether the storage calls reject,
  and the command tree \<open>commandPaletteConfig.commands\<close>.

  \<open>state_ref\<close> is the identity of the object held in \<open>state\<close>: \<open>!==\<close> on
  objects compares identities, not contents.
\<close>

record world =
  state :: CommandState
  state_ref :: nat
  initialState :: CommandState
  initial_ref :: nat
  enableRecentCommands :: bool
  subscribers :: "(nat \<times> SubscriptionMeta) list"
  nextSubscriptionId :: nat
  microtasks :: "microtask list"
  calls :: "nat list"
  closed :: "nat list"
  selected :: "(string \<times> nat option) list"
  clock :: nat
  storage_recent :: "string list option"
  storage_searchLibrary :: "string option"
  storage_fails :: bool
  commands :: "command list"

text \<open>
  The environment a store is created in: everything of \<open>world\<close> that is not a
  closure variable of \<open>createStore\<close>.
\<close>

record env =
  env_clock :: nat
  env_storage_recent :: "string list option"
  env_storage_searchLibrary :: "string option"
  env_storage_fails :: bool
  env_commands :: "command list"

definition createStore :: "CommandState \<Rightarrow> bool \<Rightarrow> env \<Rightarrow> world" where
  "createStore initial enable e =
     \<lparr>state = initial, state_ref = 0, initialState = initial, initial_ref = 0,
      enableRecentCommands = enable, subscribers = [], nextSubscriptionId = 0,
      microtasks = [], calls = [], closed = [], selected = [],
      clock = env_clock e, storage_recent = env_storage_recent e,
      storage_searchLibrary = env_storage_searchLibrary e,
      storage_fails = env_storage_fails e, commands = env_commands e\<rparr>"

subsection \<open>subscribe, notifySubscribers and the microtask queue\<close>

text \<open>
  \<open>subscribers\<close> is a JavaScript \<open>Map\<close>: insertion-ordered, \<open>set\<close> replaces the
  value of a key that exists and appends otherwise, \<open>delete\<close> removes the key.
\<close>

definition subscribe :: "callback_outcome \<Rightarrow> world \<Rightarrow> nat \<times> world" where
  "subscribe cb w =
     (let i = nextSubscriptionId w;
          now = clock w;
          meta = \<lparr>callback = cb, sub_id = i, mountedAt = now, lastActive = now\<rparr>
      in (i, w\<lparr>nextSubscriptionId := Suc i,
                subscribers := AList.update i meta (subscribers w)\<rparr>))"


definition notifySubscribers :: "world \<Rightarrow> world" where
  "notifySubscribers w = w\<lparr>microtasks := microtasks w @ [NotifyPass]\<rparr>"

text \<open>
  The body of \<open>subscribers.forEach\<close> inside the pass, entry by entry: stamp
  \<open>lastActive\<close>, call the callback (logged), and collect the id when the call throws.
  The result is the updated entries, the ids called, and \<open>brokenSubscribers\<close>.
\<close>

fun notify_each ::
  "nat \<Rightarrow> (nat \<times> SubscriptionMeta) list
     \<Rightarrow> (nat \<times> SubscriptionMeta) list \<times> nat list \<times> nat list" where
  "notify_each now [] = ([], [], [])"
| "notify_each now ((i, meta) # rest) =
     (case notify_each now rest of
        (subs, called, broken) \<Rightarrow>
          ((i, meta\<lparr>lastActive := now\<rparr>) # subs,
           i # called,
           (if callback meta = CbThrows then i # broken else broken)))"

definition run_microtask :: "microtask \<Rightarrow> world \<Rightarrow> world" where
  "run_microtask t w =
     (case t of
        NotifyPass \<Rightarrow>
          (case notify_each (clock w) (subscribers w) of
             (subs, called, brokenSubscribers) \<Rightarrow>
               (let w1 = w\<lparr>subscribers := subs, calls := calls w @ called\<rparr>
                in if length brokenSubscribers > 0
                   then w1\<lparr>microtasks := microtasks w1 @ [Cleanup brokenSubscribers]\<rparr>
                   else w1))
      | Cleanup ids \<Rightarrow> w\<lparr>subscribers := fold AList.delete ids (subscribers w)\<rparr>)"

text \<open>
  The event loop's microtask checkpoint: run the queued microtasks first in, first
  out, until the queue is empty; a microtask may queue further ones. It terminates
  because a pass queues at most one cleanup and a cleanup queues nothing.
\<close>

fun microtask_weight :: "microtask \<Rightarrow> nat" where
  "microtask_weight NotifyPass = 2"
| "microtask_weight (Cleanup ids) = 1"

function run_microtasks :: "world \<Rightarrow> world" where
  "run_microtasks w =
     (case microtasks w of
        [] \<Rightarrow> w
      | t # ts \<Rightarrow> run_microtasks (run_microtask t (w\<lparr>microtasks := ts\<rparr>)))"
  by pat_completeness auto
termination
proof (relation "measure (\<lambda>w. sum_list (map microtask_weight (microtasks w)))")
  show "wf (measure (\<lambda>w. sum_list (map microtask_weight (microtasks w))))"
    by simp
next
  fix w :: world and t ts
  assume q: "microtasks w = t # ts"
  show "(run_microtask t (w\<lparr>microtasks := ts\<rparr>), w)
          \<in> measure (\<lambda>w. sum_list (map microtask_weight (microtasks w)))"
    using q by (cases t) (auto simp: run_microtask_def Let_def split: prod.splits)
qed

subsection \<open>getState and setState\<close>

definition getState :: "world \<Rightarrow> CommandState" where
  "getState w = state w"

text \<open>
  \<open>setState\<close>. The spread allocates a new object; its identity is one that no state
  object of this store has (the current one and \<open>initialState\<close> are the only ones
  the store holds). The guard \<open>oldState !== state\<close> compares the two identities.
\<close>

definition fresh_ref :: "world \<Rightarrow> nat" where
  "fresh_ref w = Suc (max (state_ref w) (initial_ref w))"

definition setState :: "Partial \<Rightarrow> world \<Rightarrow> world" where
  "setState partial w =
     (let oldState = state_ref w;
          w1 = w\<lparr>state := spread (state w) partial, state_ref := fresh_ref w\<rparr>
      in if oldState \<noteq> state_ref w1 then notifySubscribers w1 else w1)"

subsection \<open>navigate and goBack\<close>

definition navigate :: "ViewState \<Rightarrow> world \<Rightarrow> world" where
  "navigate newView w =
     (let currentView = view (state w)
      in setState (empty_partial\<lparr>p_view := Some newView,
                                 p_history := Some (history (state w) @ [currentView])\<rparr>) w)"

text \<open>
  \<open>goBack\<close>. \<open>history[history.length - 1]\<close> is read after the emptiness check, so
  it is the last element; a \<open>ViewState\<close> is an object, so \<open>!previousView\<close> is false.
  \<open>slice(0, -1)\<close> drops the last element.
\<close>

definition goBack :: "world \<Rightarrow> bool \<times> world" where
  "goBack w =
     (let hist = history (state w)
      in if length hist = 0 then (False, w)
         else (let previousView = last hist
               in (True,
                   setState (empty_partial\<lparr>p_view := Some previousView,
                                            p_history := Some (butlast hist),
                                            p_lastNavigationWasBack := Some (Some True)\<rparr>) w)))"

subsection \<open>Persistence (lib/storage.ts)\<close>

text \<open>
  \<open>storageManager.get\<close> returns \<open>result[key] ?? defaultValue\<close>, and the default
  when the storage call rejects; \<open>storageManager.set\<close> swallows a rejection. Neither
  ever throws into its caller.
\<close>

definition MAX_RECENT_COMMANDS :: nat where
  "MAX_RECENT_COMMANDS = 10"

definition loadRecentCommands :: "world \<Rightarrow> string list" where
  "loadRecentCommands w =
     (if storage_fails w then []
      else (case storage_recent w of None \<Rightarrow> [] | Some v \<Rightarrow> v))"

definition saveRecentCommands :: "string list \<Rightarrow> world \<Rightarrow> world" where
  "saveRecentCommands cmds w =
     (if storage_fails w then w else w\<lparr>storage_recent := Some cmds\<rparr>)"

definition loadSearchLibrary :: "world \<Rightarrow> SearchAlgorithm option" where
  "loadSearchLibrary w =
     (let library = (if storage_fails w then None else storage_searchLibrary w)
      in if library = Some ''fuse'' then Some fuse
         else if library = Some ''commandscore'' then Some commandscore
         else None)"

subsection \<open>init, addRecentCommand, selectCommand, destroy\<close>

text \<open>
  An \<open>async\<close> function is run to completion as one step: what other tasks could do
  between two \<open>await\<close>s is not part of the model. Its promise is \<open>Resolved\<close> or
  \<open>Rejected\<close>.
\<close>

datatype promise_result = Resolved | Rejected

text \<open>
  \<open>init\<close>. Nothing inside its \<open>try\<close> block can throw here (the storage helpers
  catch their own failures), so the empty \<open>catch\<close> is never entered.
\<close>

definition init :: "world \<Rightarrow> promise_result \<times> world" where
  "init w =
     (let savedSearchLibrary = loadSearchLibrary w;
          searchLibrary' =
            (case savedSearchLibrary of
               Some l \<Rightarrow> Some l
             | None \<Rightarrow> searchLibrary (state w));
          w1 = (if searchLibrary' \<noteq> searchLibrary (state w)
                then setState (empty_partial\<lparr>p_searchLibrary := Some searchLibrary'\<rparr>) w
                else w);
          w2 = (if enableRecentCommands w1
                then setState
                       (empty_partial\<lparr>p_recentCommands := Some (loadRecentCommands w1)\<rparr>) w1
                else w1)
      in (Resolved, w2))"

text \<open>
  \<open>addRecentCommand\<close>. \<open>state.recentCommands\<close> is an array in every state, so
  \<open>state.recentCommands || []\<close> is the array itself;
  \<open>slice(0, MAX_RECENT_COMMANDS)\<close> keeps the first ten.
\<close>

definition addRecentCommand :: "string \<Rightarrow> world \<Rightarrow> world" where
  "addRecentCommand commandId w =
     (let current = recentCommands (state w);
          withoutThis = filter (\<lambda>i. i \<noteq> commandId) current;
          updated = take MAX_RECENT_COMMANDS (commandId # withoutThis);
          w1 = setState (empty_partial\<lparr>p_recentCommands := Some updated\<rparr>) w
      in saveRecentCommands updated w1)"

text \<open>The local \<open>findCommandById\<close> of \<open>selectCommand\<close>.\<close>

fun findCommandById :: "string \<Rightarrow> command list \<Rightarrow> command option" where
  "findCommandById i [] = None"
| "findCommandById i (Command cid nm ty kw px ch ssi ex # rest) =
     (if cid = i then Some (Command cid nm ty kw px ch ssi ex)
      else (case ch of
              None \<Rightarrow> findCommandById i rest
            | Some cs \<Rightarrow>
                (case findCommandById i cs of
                   Some found \<Rightarrow> Some found
                 | None \<Rightarrow> findCommandById i rest)))"

text \<open>
  The \<open>try\<close> block of \<open>selectCommand\<close>. The first component tells whether an
  exception left the block: \<open>execute\<close> threw, or the promise it returned rejected and
  the \<open>await\<close> threw. \<open>onClose\<close> is optional (\<open>onClose?.()\<close>); its call is logged.
\<close>

definition selectCommand_try ::
  "string \<Rightarrow> nat option \<Rightarrow> command \<Rightarrow> world \<Rightarrow> bool \<times> world" where
  "selectCommand_try commandId onClose command w =
     (let w1 = (if enableRecentCommands w then addRecentCommand commandId w else w)
      in if cmd_type command = action then
           (case cmd_execute command of
              Returns \<Rightarrow>
                (False, (case onClose of
                           None \<Rightarrow> w1
                         | Some c \<Rightarrow> w1\<lparr>closed := closed w1 @ [c]\<rparr>))
            | Throws \<Rightarrow> (True, w1)
            | Rejects \<Rightarrow> (True, w1))
         else if cmd_type command = category then
           (False, navigate \<lparr>vtype = category_view, portalId = None,
                             categoryId = Some commandId, query = Some '''',
                             showSearchInput = None\<rparr> w1)
         else if cmd_type command = portal then
           (False, navigate \<lparr>vtype = portal_view, portalId = Some commandId,
                             categoryId = None, query = Some '''',
                             showSearchInput = cmd_showSearchInput command\<rparr> w1)
         else (False, w1))"

text \<open>
  \<open>selectCommand\<close>: every call is logged with its arguments. An exception that
  leaves the \<open>try\<close> block is swallowed by the empty \<open>catch\<close>; an exception that
  nothing caught would reject the promise.
\<close>

definition selectCommand :: "string \<Rightarrow> nat option \<Rightarrow> world \<Rightarrow> promise_result \<times> world" where
  "selectCommand commandId onClose w =
     (let w0 = w\<lparr>selected := selected w @ [(commandId, onClose)]\<rparr>
      in case findCommandById commandId (commands w0) of
           None \<Rightarrow> (Resolved, w0)
         | Some command \<Rightarrow>
             (case selectCommand_try commandId onClose command w0 of
                (threw, w') \<Rightarrow> (Resolved, w')))"


section \<open>Prefix-shortcut detector (lib/search/usePrefixTrigger.ts)\<close>

text \<open>
  A \<open>char\<close> stands for the UTF-16 code unit of the same number. \<open>String.trim\<close>
  removes white space and line terminators from both ends; below 256 these are the
  code units 9 to 13, 32 and 160.
\<close>

definition is_whitespace :: "char \<Rightarrow> bool" where
  "is_whitespace c = ((of_char c :: nat) \<in> set [9, 10, 11, 12, 13, 32, 160])"

definition trim :: "string \<Rightarrow> string" where
  "trim s = rev (dropWhile is_whitespace (rev (dropWhile is_whitespace s)))"

definition endsWith_space :: "string \<Rightarrow> bool" where
  "endsWith_space s = (s \<noteq> [] \<and> last s = CHR '' '')"

text \<open>The local \<open>findCommandForPrefix\<close>; \<open>item.prefixes?.includes(prefix)\<close>.\<close>

fun findCommandForPrefix :: "string \<Rightarrow> command list \<Rightarrow> command option" where
  "findCommandForPrefix p [] = None"
| "findCommandForPrefix p (Command cid nm ty kw px ch ssi ex # rest) =
     (if (case px of None \<Rightarrow> False | Some ps \<Rightarrow> p \<in> set ps)
      then Some (Command cid nm ty kw px ch ssi ex)
      else (case ch of
              None \<Rightarrow> findCommandForPrefix p rest
            | Some cs \<Rightarrow>
                (case findCommandForPrefix p cs of
                   Some found \<Rightarrow> Some found
                 | None \<Rightarrow> findCommandForPrefix p rest)))"

text \<open>
  One run of the effect of \<open>usePrefixTrigger\<close> for the current \<open>query\<close> and
  \<open>onClose\<close>. \<open>lastQueryRef\<close> is the hook's ref, passed in and returned.
  \<open>state.lastNavigationWasBack\<close> is truthy exactly when it is \<open>true\<close>.
\<close>

definition usePrefixTrigger :: "string \<Rightarrow> nat \<Rightarrow> string \<Rightarrow> world \<Rightarrow> string \<times> world" where
  "usePrefixTrigger q onClose lastQueryRef w =
     (if lastNavigationWasBack (getState w) = Some True then
        (lastQueryRef,
         setState (empty_partial\<lparr>p_lastNavigationWasBack := Some (Some False)\<rparr>) w)
      else if q = lastQueryRef then (lastQueryRef, w)
      else if q = [] \<or> \<not> endsWith_space q then (q, w)
      else (let p = trim q
            in if p = [] then (q, w)
               else (case findCommandForPrefix p (commands w) of
                       None \<Rightarrow> (q, w)
                     | Some matchingCommand \<Rightarrow>
                         (q, snd (selectCommand (cmd_id matchingCommand) (Some onClose) w)))))"

section \<open>Keyboard navigation (lib/useGlobalKeyboardNavigation.ts)\<close>

record KeyboardEvent =
  target_tagName :: string
  key :: string
  defaultPrevented :: bool
  propagationStopped :: bool

definition isNavigationKey :: "string \<Rightarrow> bool" where
  "isNavigationKey k = (k \<in> set [''ArrowUp'', ''ArrowDown'', ''Enter''])"

definition calculateNextIndex :: "int \<Rightarrow> string \<Rightarrow> int \<Rightarrow> bool \<Rightarrow> int" where
  "calculateNextIndex currentIndex k itemsLength lp =
     (if k = ''ArrowDown'' then
        (if currentIndex < itemsLength - 1 then currentIndex + 1
         else if lp then 0 else currentIndex)
      else
        (if currentIndex > 0 then currentIndex - 1
         else if lp then itemsLength - 1 else currentIndex))"

text \<open>\<open>Array.findIndex\<close>: the first index whose element passes, or \<open>-1\<close>.\<close>

fun findIndex :: "('a \<Rightarrow> bool) \<Rightarrow> 'a list \<Rightarrow> int" where
  "findIndex P [] = - 1"
| "findIndex P (x # xs) =
     (if P x then 0 else (let r = findIndex P xs in if r < 0 then - 1 else r + 1))"

text \<open>\<open>items[i]\<close>: \<open>undefined\<close> outside the array.\<close>

definition at_index :: "'a list \<Rightarrow> int \<Rightarrow> 'a option" where
  "at_index xs i = (if 0 \<le> i \<and> i < int (length xs) then Some (xs ! nat i) else None)"

text \<open>
  \<open>handleGlobalKeyDown\<close> returns the event (with \<open>preventDefault\<close> and
  \<open>stopPropagation\<close> recorded) and the store. \<open>state.activeId\<close> is truthy when it is
  a non-empty string.
\<close>

definition handleGlobalKeyDown :: "KeyboardEvent \<Rightarrow> world \<Rightarrow> KeyboardEvent \<times> world" where
  "handleGlobalKeyDown e w =
     (if target_tagName e = ''INPUT'' \<or> target_tagName e = ''TEXTAREA'' then (e, w)
      else if \<not> isNavigationKey (key e) then (e, w)
      else
        (let st = getState w;
             its = (case items st of None \<Rightarrow> [] | Some xs \<Rightarrow> xs);
             e1 = e\<lparr>defaultPrevented := True, propagationStopped := True\<rparr>
         in if length its = 0 then (e1, w)
            else
              (let currentIndex =
                     (case activeId st of
                        None \<Rightarrow> - 1
                      | Some a \<Rightarrow>
                          if a = [] then - 1 else findIndex (\<lambda>item. item_id item = a) its)
               in if key e = ''Enter'' \<and> currentIndex \<ge> 0 then
                    (case at_index its currentIndex of
                       Some currentItem \<Rightarrow>
                         (e1, snd (selectCommand (item_id currentItem) None w))
                     | None \<Rightarrow> (e1, w))
                  else
                    (let newIndex =
                           calculateNextIndex currentIndex (key e) (int (length its)) (loop st)
                     in if newIndex = currentIndex \<or> newIndex < 0
                           \<or> newIndex \<ge> int (length its)
                        then (e1, w)
                        else
                          (case at_index its newIndex of
                             None \<Rightarrow> (e1, w)
                           | Some targetItem \<Rightarrow>
                               (e1,
                                setState
                                  (empty_partial
                                     \<lparr>p_activeId := Some (Some (item_id targetItem)),
                                      p_scrollTrigger := Some (Some keyboard_trigger),
                                      p_keyboardNavigationActive := Some (Some True),
                                      p_navigationDirection :=
                                        Some (Some (if key e = ''ArrowDown''
                                                    then down else up))\<rparr>) w))))))"

section \<open>Ranking (lib/search/algorithms.ts)\<close>

text \<open>
  \<open>xs.slice(0, n)\<close> for an integer \<open>n\<close>: a negative \<open>n\<close> counts from the end.
\<close>

definition slice0 :: "int \<Rightarrow> 'a list \<Rightarrow> 'a list" where
  "slice0 n xs = (if n < 0 then take (nat (int (length xs) + n)) xs else take (nat n) xs)"

text \<open>
  \<open>Array.prototype.sort\<close> with a comparator is a stable sort: \<open>a\<close> stays before a
  later \<open>b\<close> unless \<open>compare(a, b) > 0\<close>. For a comparator that orders by a key the
  result does not depend on the engine's algorithm; insertion is used here.
\<close>

fun insert_by :: "('a \<Rightarrow> 'a \<Rightarrow> real) \<Rightarrow> 'a \<Rightarrow> 'a list \<Rightarrow> 'a list" where
  "insert_by cmp x [] = [x]"
| "insert_by cmp x (y # ys) =
     (if cmp x y \<le> 0 then x # y # ys else y # insert_by cmp x ys)"

definition sort_by :: "('a \<Rightarrow> 'a \<Rightarrow> real) \<Rightarrow> 'a list \<Rightarrow> 'a list" where
  "sort_by cmp xs = foldr (insert_by cmp) xs []"

text \<open>
  The scoring callback of \<open>searchWithCommandScore\<close>. The library function
  \<open>commandScore\<close> is a parameter \<open>cs\<close>; scores are numbers that are only compared
  and maximised, so they are taken as reals. The threshold \<open>0.1\<close> of the code is the
  double nearest to one tenth; no double lies between the two, so a score passes
  the one exactly when it passes the other.
\<close>

definition item_score :: "(string \<Rightarrow> string \<Rightarrow> real) \<Rightarrow> string \<Rightarrow> command \<Rightarrow> real" where
  "item_score cs q item =
     (let score = cs (cmd_name item) q;
          score1 =
            (case cmd_keywords item of
               None \<Rightarrow> score
             | Some kws \<Rightarrow>
                 if length kws > 0
                 then fold (\<lambda>keyword sc. max sc (cs keyword q)) kws score
                 else score);
          score2 =
            (if cmd_type item = action \<or> cmd_type item = portal then
               (case cmd_prefixes item of
                  None \<Rightarrow> score1
                | Some ps \<Rightarrow>
                    if length ps > 0
                    then fold (\<lambda>p sc. max sc (cs p q)) ps score1
                    else score1)
             else score1)
      in score2)"

definition searchWithCommandScore ::
  "(string \<Rightarrow> string \<Rightarrow> real) \<Rightarrow> command list \<Rightarrow> string \<Rightarrow> int \<Rightarrow> command list" where
  "searchWithCommandScore cs its q maxResults =
     (let scoredItems = map (\<lambda>item. (item, item_score cs q item)) its
      in map fst
           (slice0 maxResults
              (sort_by (\<lambda>a b. snd b - snd a)
                 (filter (\<lambda>(item, score). score \<ge> 0.1) scoredItems))))"

text \<open>
  \<open>searchWithFuse\<close>. The loaded Fuse module is a parameter: given the indexed
  strings and the query it returns the matching strings, each with its optional
  distance-like score.
\<close>

type_synonym fuse_module = "string list \<Rightarrow> string \<Rightarrow> (string \<times> real option) list"

datatype search_error = FuseNotLoaded

definition item_strings :: "command \<Rightarrow> string list" where
  "item_strings item =
     cmd_name item
       # (case cmd_keywords item of None \<Rightarrow> [] | Some kws \<Rightarrow> kws)
       @ (if cmd_type item = action \<or> cmd_type item = portal
          then (case cmd_prefixes item of None \<Rightarrow> [] | Some ps \<Rightarrow> ps)
          else [])"

definition searchableStrings :: "command list \<Rightarrow> string list" where
  "searchableStrings its = concat (map item_strings its)"

text \<open>The body of \<open>items.forEach\<close> that fills \<open>stringToItemMap\<close>, and the loop.\<close>

definition set_item :: "command \<Rightarrow> (string \<rightharpoonup> command) \<Rightarrow> (string \<rightharpoonup> command)" where
  "set_item item m =
     (let m1 = m(cmd_name item \<mapsto> item);
          m2 = (case cmd_keywords item of
                  None \<Rightarrow> m1
                | Some kws \<Rightarrow> fold (\<lambda>kw m'. m'(kw \<mapsto> item)) kws m1);
          m3 = (if cmd_type item = action \<or> cmd_type item = portal then
                  (case cmd_prefixes item of
                     None \<Rightarrow> m2
                   | Some ps \<Rightarrow> fold (\<lambda>p m'. m'(p \<mapsto> item)) ps m2)
                else m2)
      in m3)"

definition stringToItemMap :: "command list \<Rightarrow> (string \<rightharpoonup> command)" where
  "stringToItemMap its = fold set_item its Map.empty"

text \<open>
  The loop over the results: \<open>matchedItems\<close> and \<open>scoredResults\<close> are passed in and
  the final \<open>scoredResults\<close> is returned. Commands are compared by value, where the
  \<open>Set\<close> compares object identities.
\<close>

fun collect_results ::
  "(string \<rightharpoonup> command) \<Rightarrow> (string \<times> real option) list \<Rightarrow> command list
     \<Rightarrow> (command \<times> real) list \<Rightarrow> (command \<times> real) list" where
  "collect_results m [] matchedItems scoredResults = scoredResults"
| "collect_results m ((s, sc) # rest) matchedItems scoredResults =
     (case sc of
        None \<Rightarrow> collect_results m rest matchedItems scoredResults
      | Some d \<Rightarrow>
          (case m s of
             None \<Rightarrow> collect_results m rest matchedItems scoredResults
           | Some item \<Rightarrow>
               if item \<in> set matchedItems
               then collect_results m rest matchedItems scoredResults
               else collect_results m rest (matchedItems @ [item])
                      (scoredResults @ [(item, max 0 (min 1 (1 - d)))])))"

definition searchWithFuse ::
  "fuse_module option \<Rightarrow> command list \<Rightarrow> string \<Rightarrow> int \<Rightarrow> search_error + command list" where
  "searchWithFuse fuseModule its q maxResults =
     (case fuseModule of
        None \<Rightarrow> Inl FuseNotLoaded
      | Some Fuse \<Rightarrow>
          (let results = Fuse (searchableStrings its) q;
               scoredResults = collect_results (stringToItemMap its) results [] []
           in Inr (map fst
                     (slice0 maxResults
                        (sort_by (\<lambda>a b. snd b - snd a) scoredResults)))))"

text \<open>\<open>searchItems\<close>: \<open>!query\<close> holds for the empty string.\<close>

definition searchItems ::
  "(string \<Rightarrow> string \<Rightarrow> real) \<Rightarrow> fuse_module option \<Rightarrow> command list \<Rightarrow> string
     \<Rightarrow> SearchAlgorithm \<Rightarrow> int \<Rightarrow> command list" where
  "searchItems cs fuseModule its q algorithm maxResults =
     (if q = [] then slice0 maxResults its
      else if algorithm = fuse then
        (case searchWithFuse fuseModule its q maxResults of
           Inr found \<Rightarrow> found
         | Inl err \<Rightarrow> searchWithCommandScore cs its q maxResults)
      else searchWithCommandScore cs its q maxResults)"

section \<open>Runs of the store\<close>








section \<open>Example data\<close>

text \<open>
  The initial state the \<open>Command\<close> component builds, an environment with empty
  storage, and the tree of one category holding an action and a portal with the
  shortcut \<open>!calc\<close>. They serve as concrete inputs.
\<close>

definition example_view :: ViewState where
  "example_view =
     \<lparr>vtype = root, portalId = None, categoryId = None, query = Some '''',
      showSearchInput = None\<rparr>"

definition calculator_view :: ViewState where
  "calculator_view =
     \<lparr>vtype = portal_view, portalId = Some ''calculator'', categoryId = None,
      query = Some '''', showSearchInput = None\<rparr>"

definition example_state :: CommandState where
  "example_state =
     \<lparr>is_open = False, activeId = None, loop = False, view = example_view,
      history = [], recentCommands = [], lastNavigationWasBack = None,
      searchLibrary = Some fuse, virtualization = Some False, items = None,
      scrollTrigger = None, keyboardNavigationActive = None,
      navigationDirection = None\<rparr>"

definition devtools :: command where
  "devtools =
     Command ''devtools'' ''Open DevTools'' action None None None None Returns"

definition calculator :: command where
  "calculator =
     Command ''calculator'' ''Calculator'' portal None (Some [''!calc'']) None None Returns"

definition example_tree :: "command list" where
  "example_tree =
     [Command ''dev-tools'' ''Dev Tools'' category None None
        (Some [devtools, calculator]) None Returns]"

definition example_env :: env where
  "example_env =
     \<lparr>env_clock = 0, env_storage_recent = None, env_storage_searchLibrary = None,
      env_storage_fails = False, env_commands = example_tree\<rparr>"

definition example_store :: world where
  "example_store = createStore example_state True example_env"

definition loop_on :: Partial where
  "loop_on = empty_partial\<lparr>p_loop := Some True\<rparr>"

definition open_on :: Partial where
  "open_on = empty_partial\<lparr>p_is_open := Some True\<rparr>"

definition two_subscribers :: world where
  "two_subscribers = snd (subscribe CbThrows (snd (subscribe CbReturns example_store)))"

definition duplicated_env :: env where
  "duplicated_env = example_env\<lparr>env_storage_recent := Some [''devtools'', ''devtools'']\<rparr>"

definition broken_action :: command where
  "broken_action = Command ''broken'' ''Broken'' action None None None None Throws"

definition broken_store :: world where
  "broken_store =
     createStore example_state True (example_env\<lparr>env_commands := [broken_action]\<rparr>)"

definition blank_command :: command where
  "blank_command = Command ''blank'' ''Blank'' action None (Some ['''']) None None Returns"

definition blank_store :: world where
  "blank_store =
     createStore example_state True (example_env\<lparr>env_commands := [blank_command]\<rparr>)"

definition back_store :: world where
  "back_store = snd (goBack (navigate calculator_view example_store))"

definition three_items :: "item_ref list" where
  "three_items =
     [\<lparr>item_id = ''a'', item_index = 0\<rparr>, \<lparr>item_id = ''b'', item_index = 1\<rparr>,
      \<lparr>item_id = ''c'', item_index = 2\<rparr>]"

definition keyboard_store :: "string option \<Rightarrow> bool \<Rightarrow> world" where
  "keyboard_store a lp =
     createStore (example_state\<lparr>items := Some three_items, activeId := a, loop := lp\<rparr>)
       True example_env"

definition key_event :: "string \<Rightarrow> KeyboardEvent" where
  "key_event k =
     \<lparr>target_tagName = ''DIV'', key = k, defaultPrevented = False,
      propagationStopped = False\<rparr>"

text \<open>
  Stand-ins for the two libraries, for concrete inputs: a score of 1 for an exact
  match and 0 otherwise, and a Fuse that returns the indexed strings equal to the
  query at distance 0. Two commands that share the name \<open>Open\<close>.
\<close>

definition exact_score :: "string \<Rightarrow> string \<Rightarrow> real" where
  "exact_score s q = (if s = q then 1 else 0)"

definition exact_fuse :: fuse_module where
  "exact_fuse strs q = map (\<lambda>s. (s, Some 0)) (filter (\<lambda>s. s = q) strs)"

definition first_open :: command where
  "first_open = Command ''open-file'' ''Open'' action None None None None Returns"

definition second_open :: command where
  "second_open = Command ''open-folder'' ''Open'' action None None None None Returns"


section \<open>Auxiliary notions for the proofs\<close>

text \<open>A queue that holds no notification pass.\<close>

definition only_cleanups :: "microtask list \<Rightarrow> bool" where
  "only_cleanups q = (NotifyPass \<notin> set q)"






text \<open>A node that lists \<open>p\<close> among its \<open>prefixes\<close>.\<close>

definition has_prefix :: "string \<Rightarrow> command \<Rightarrow> bool" where
  "has_prefix p c = (case cmd_prefixes c of None \<Rightarrow> False | Some ps \<Rightarrow> p \<in> set ps)"

text \<open>
  The list and the current index that \<open>handleGlobalKeyDown\<close> computes from the
  state (its locals \<open>items\<close> and \<open>currentIndex\<close>).
\<close>

definition item_list :: "world \<Rightarrow> item_ref list" where
  "item_list w = (case items (state w) of None \<Rightarrow> [] | Some xs \<Rightarrow> xs)"

definition current_index :: "world \<Rightarrow> int" where
  "current_index w =
     (case activeId (state w) of
        None \<Rightarrow> - 1
      | Some a \<Rightarrow>
          if a = [] then - 1 else findIndex (\<lambda>item. item_id item = a) (item_list w))"

section \<open>Properties of the tree utilities\<close>

lemma find_append:
  "List.find P (xs @ ys) = (case List.find P xs of None \<Rightarrow> List.find P ys | Some x \<Rightarrow> Some x)"
  by (induction xs) auto

lemma recurse_preorder: "recurse xs acc = acc @ preorder xs"
proof (induction xs acc rule: recurse.induct)
  case (1 result)
  then show ?case by simp
next
  case (2 cid nm ty kw px ch ssi ex rest result)
  then show ?case by (cases ch) (auto split: option.splits)
qed

lemma findNavigableById_preorder:
  "findNavigableById i xs = List.find (\<lambda>c. cmd_id c = i) (preorder xs)"
proof (induction i xs rule: findNavigableById.induct)
  case (1 i)
  then show ?case by simp
next
  case (2 i cid nm ty kw px ch ssi ex rest)
  then show ?case by (cases ch) (auto simp: find_append split: option.splits)
qed

lemma length_preorder: "length (preorder xs) = node_count xs"
  by (induction xs rule: preorder.induct) (auto split: option.splits)

lemma preorder_append: "preorder (xs @ ys) = preorder xs @ preorder ys"
  by (induction xs rule: preorder.induct) (auto split: option.splits)

lemma find_preorder_twice:
  "List.find P (preorder (preorder xs)) = List.find P (preorder xs)"
proof (induction xs rule: preorder.induct)
  case 1
  then show ?case by simp
next
  case (2 cid nm ty kw px ch ssi ex rest)
  show ?case
  proof (cases ch)
    case None
    then show ?thesis
      using 2 by (simp add: preorder_append)
  next
    case (Some cs)
    then show ?thesis
      using 2 by (simp add: preorder_append find_append split: option.splits)
  qed
qed

text \<open>
  Claim C9. For every command tree \<open>T\<close> and every id \<open>i\<close>, the first element with
  id \<open>i\<close> of the flattened list \<open>flattenNavigables T\<close> is the node that the direct
  pre-order search \<open>findNavigableById i T\<close> returns (and the search returns \<open>null\<close>
  exactly when the flattened list has no such element); searching the flattened
  list with \<open>findNavigableById\<close> itself gives the same node too. The flattened list
  is the pre-order listing of the tree, children following their parent, and its
  length is the number of nodes of the tree: every node is emitted exactly once.
\<close>

theorem flatten_find_agree:
  "findNavigableById i T = List.find (\<lambda>c. cmd_id c = i) (flattenNavigables T)
   \<and> findNavigableById i (flattenNavigables T) = findNavigableById i T
   \<and> flattenNavigables T = preorder T
   \<and> length (flattenNavigables T) = node_count T"
  by (simp add: flattenNavigables_def recurse_preorder findNavigableById_preorder
      length_preorder find_preorder_twice)

section \<open>Properties of the store's notification\<close>

declare run_microtasks.simps [simp del]

lemma run_microtasks_Nil: "microtasks w = [] \<Longrightarrow> run_microtasks w = w"
  by (subst run_microtasks.simps) simp

lemma run_microtasks_Cons:
  "microtasks w = t # ts \<Longrightarrow>
     run_microtasks w = run_microtasks (run_microtask t (w\<lparr>microtasks := ts\<rparr>))"
  by (subst run_microtasks.simps) simp

lemma state_setState: "state (setState p w) = spread (state w) p"
  by (simp add: setState_def notifySubscribers_def fresh_ref_def Let_def)

lemma microtasks_setState: "microtasks (setState p w) = microtasks w @ [NotifyPass]"
  by (simp add: setState_def notifySubscribers_def fresh_ref_def Let_def)

lemma calls_setState: "calls (setState p w) = calls w"
  by (simp add: setState_def notifySubscribers_def fresh_ref_def Let_def)

lemma subscribers_setState: "subscribers (setState p w) = subscribers w"
  by (simp add: setState_def notifySubscribers_def fresh_ref_def Let_def)

lemma spread_empty_partial: "spread st empty_partial = st"
  by (simp add: spread_def empty_partial_def)

lemma notify_each_keys:
  "notify_each now subs = (subs', called, broken) \<Longrightarrow>
     called = map fst subs \<and> map fst subs' = map fst subs"
  by (induction subs arbitrary: subs' called broken) (auto split: prod.splits)

lemma drain_cleanups:
  "microtasks w = q \<Longrightarrow> only_cleanups q \<Longrightarrow> calls (run_microtasks w) = calls w"
proof (induction q arbitrary: w)
  case Nil
  then show ?case by (simp add: run_microtasks_Nil)
next
  case (Cons t ts)
  from Cons.prems obtain ids where t: "t = Cleanup ids"
    by (cases t) (auto simp: only_cleanups_def)
  let ?w' = "run_microtask t (w\<lparr>microtasks := ts\<rparr>)"
  have "microtasks ?w' = ts" "calls ?w' = calls w"
    by (simp_all add: t run_microtask_def)
  moreover have "only_cleanups ts"
    using Cons.prems by (simp add: only_cleanups_def)
  ultimately have "calls (run_microtasks ?w') = calls w"
    using Cons.IH[of ?w'] by simp
  then show ?case
    using Cons.prems(1) by (simp add: run_microtasks_Cons)
qed

lemma run_pass:
  "\<exists>cs. only_cleanups cs
     \<and> microtasks (run_microtask NotifyPass w) = microtasks w @ cs"
  "calls (run_microtask NotifyPass w) = calls w @ map fst (subscribers w)"
  "map fst (subscribers (run_microtask NotifyPass w)) = map fst (subscribers w)"
proof -
  obtain subs' called broken
    where ne: "notify_each (clock w) (subscribers w) = (subs', called, broken)"
    by (cases "notify_each (clock w) (subscribers w)") auto
  note k = notify_each_keys[OF ne]
  show "\<exists>cs. only_cleanups cs
          \<and> microtasks (run_microtask NotifyPass w) = microtasks w @ cs"
  proof (cases "broken = []")
    case True
    then have "microtasks (run_microtask NotifyPass w) = microtasks w @ []"
      by (simp add: run_microtask_def ne)
    then show ?thesis
      unfolding only_cleanups_def by (intro exI[of _ "[]"]) simp
  next
    case False
    then have "microtasks (run_microtask NotifyPass w) = microtasks w @ [Cleanup broken]"
      by (simp add: run_microtask_def ne Let_def)
    then show ?thesis
      unfolding only_cleanups_def by (intro exI[of _ "[Cleanup broken]"]) simp
  qed
  show "calls (run_microtask NotifyPass w) = calls w @ map fst (subscribers w)"
    using k by (simp add: run_microtask_def ne Let_def)
  show "map fst (subscribers (run_microtask NotifyPass w)) = map fst (subscribers w)"
    using k by (simp add: run_microtask_def ne Let_def)
qed

lemma drain_passes:
  "microtasks w = replicate n NotifyPass @ cs \<Longrightarrow> only_cleanups cs \<Longrightarrow>
     calls (run_microtasks w) = calls w @ concat (replicate n (map fst (subscribers w)))"
proof (induction n arbitrary: w cs)
  case 0
  then show ?case
    using drain_cleanups[of w cs] by simp
next
  case (Suc n)
  let ?w0 = "w\<lparr>microtasks := replicate n NotifyPass @ cs\<rparr>"
  let ?w' = "run_microtask NotifyPass ?w0"
  from run_pass(1)[of ?w0] obtain cs' where cs': "only_cleanups cs'"
    "microtasks ?w' = replicate n NotifyPass @ cs @ cs'"
    by auto
  have oc: "only_cleanups (cs @ cs')"
    using Suc.prems(2) cs'(1) by (simp add: only_cleanups_def)
  have "calls (run_microtasks ?w')
          = calls ?w' @ concat (replicate n (map fst (subscribers ?w')))"
    using Suc.IH[OF cs'(2) oc] .
  moreover have "calls ?w' = calls w @ map fst (subscribers w)"
    using run_pass(2)[of ?w0] by simp
  moreover have "map fst (subscribers ?w') = map fst (subscribers w)"
    using run_pass(3)[of ?w0] by simp
  moreover have "run_microtasks w = run_microtasks ?w'"
    using Suc.prems(1) by (simp add: run_microtasks_Cons)
  ultimately show ?case by simp
qed

lemma fold_setState:
  "microtasks (fold setState ps w) = microtasks w @ replicate (length ps) NotifyPass
   \<and> calls (fold setState ps w) = calls w
   \<and> subscribers (fold setState ps w) = subscribers w"
proof (induction ps arbitrary: w)
  case Nil
  then show ?case by simp
next
  case (Cons p ps)
  show ?case
    by (simp add: Cons.IH microtasks_setState calls_setState subscribers_setState
        replicate_append_same)
qed

lemma count_list_concat_replicate:
  "count_list (concat (replicate n xs)) i = n * count_list xs i"
  by (induction n) simp_all

lemma count_list_distinct: "distinct xs \<Longrightarrow> i \<in> set xs \<Longrightarrow> count_list xs i = 1"
  by (induction xs) (auto simp: count_list_0_iff)

text \<open>
  Claim C1, at the input where the code departs from it. \<open>setState\<close> with the
  empty partial changes no field of the state, and still queues a notification pass:
  the guard compares the old state object with the object the spread has just
  created. With one subscriber on a new store, the subscriber's callback runs.
\<close>

theorem setState_empty_partial_notifies:
  "state (setState empty_partial w) = state w
   \<and> microtasks (setState empty_partial w) = microtasks w @ [NotifyPass]
   \<and> calls (run_microtasks
               (setState empty_partial
                  (snd (subscribe CbReturns (createStore st enable e))))) = [0]"
proof -
  let ?w1 = "snd (subscribe CbReturns (createStore st enable e))"
  have q: "microtasks (setState empty_partial ?w1) = replicate 1 NotifyPass @ []"
    by (simp add: microtasks_setState subscribe_def createStore_def Let_def)
  have "calls (run_microtasks (setState empty_partial ?w1))
          = calls (setState empty_partial ?w1)
            @ concat (replicate 1 (map fst (subscribers (setState empty_partial ?w1))))"
    by (rule drain_passes[OF q]) (simp add: only_cleanups_def)
  then have "calls (run_microtasks (setState empty_partial ?w1)) = [0]"
    by (simp add: calls_setState subscribers_setState subscribe_def createStore_def Let_def)
  then show ?thesis
    by (simp add: state_setState spread_empty_partial microtasks_setState)
qed

text \<open>
  Claim C2 fails as stated: on a new store with one subscriber, a burst of two
  state-changing \<open>setState\<close> calls makes the subscriber's callback run twice.
\<close>

theorem burst_of_two_calls_back_twice:
  "count_list
     (calls (run_microtasks
               (setState open_on
                  (setState loop_on (snd (subscribe CbReturns example_store)))))) 0 = 2"
proof -
  let ?w1 = "snd (subscribe CbReturns example_store)"
  let ?w3 = "setState open_on (setState loop_on ?w1)"
  have q: "microtasks ?w3 = replicate 2 NotifyPass @ []"
    by (simp add: microtasks_setState subscribe_def createStore_def example_store_def
        Let_def numeral_2_eq_2)
  have "calls (run_microtasks ?w3)
          = calls ?w3 @ concat (replicate 2 (map fst (subscribers ?w3)))"
    by (rule drain_passes[OF q]) (simp add: only_cleanups_def)
  then have "calls (run_microtasks ?w3) = [0, 0]"
    by (simp add: calls_setState subscribers_setState subscribe_def createStore_def
        example_store_def Let_def numeral_2_eq_2)
  then show ?thesis by simp
qed

text \<open>
  Claim C2, amended. For a burst of \<open>k\<close> synchronous \<open>setState\<close> calls issued with
  an empty microtask queue: no subscriber callback runs during the burst; the burst
  queues \<open>k\<close> notification passes, one per call, and nothing coalesces them; when the
  queue is drained, every pass calls every subscriber in subscription order, so each
  subscriber's callback runs exactly \<open>k\<close> times.
\<close>

theorem burst_runs_one_pass_per_call:
  assumes "microtasks w = []"
  shows "calls (fold setState ps w) = calls w
    \<and> microtasks (fold setState ps w) = replicate (length ps) NotifyPass
    \<and> calls (run_microtasks (fold setState ps w))
        = calls w @ concat (replicate (length ps) (map fst (subscribers w)))
    \<and> (distinct (map fst (subscribers w)) \<longrightarrow>
         (\<forall>i \<in> set (map fst (subscribers w)).
            count_list (calls (run_microtasks (fold setState ps w))) i
              = count_list (calls w) i + length ps))"
proof -
  let ?w' = "fold setState ps w"
  have f: "microtasks ?w' = replicate (length ps) NotifyPass @ []"
    "calls ?w' = calls w" "subscribers ?w' = subscribers w"
    using fold_setState[of ps w] assms by simp_all
  have d: "calls (run_microtasks ?w')
             = calls w @ concat (replicate (length ps) (map fst (subscribers w)))"
    using drain_passes[OF f(1)] f(2,3) by (simp add: only_cleanups_def)
  have "count_list (calls (run_microtasks ?w')) i = count_list (calls w) i + length ps"
    if "distinct (map fst (subscribers w))" "i \<in> set (map fst (subscribers w))" for i
    using that d by (simp add: count_list_concat_replicate count_list_distinct)
  then show ?thesis
    using f d by simp
qed

theorem burst_runs_one_pass_per_call_witness:
  "microtasks two_subscribers = []
   \<and> distinct (map fst (subscribers two_subscribers))
   \<and> map fst (subscribers two_subscribers) = [0, 1]
   \<and> calls (fold setState [loop_on, open_on] two_subscribers) = []
   \<and> microtasks (fold setState [loop_on, open_on] two_subscribers) = [NotifyPass, NotifyPass]
   \<and> calls (run_microtasks (fold setState [loop_on, open_on] two_subscribers)) = [0, 1, 0, 1]
   \<and> count_list (calls (run_microtasks (fold setState [loop_on, open_on] two_subscribers))) 1 = 2"
proof -
  have m: "microtasks two_subscribers = []"
    by (simp add: two_subscribers_def subscribe_def example_store_def createStore_def Let_def)
  have k: "map fst (subscribers two_subscribers) = [0, 1]"
    by (simp add: two_subscribers_def subscribe_def example_store_def createStore_def Let_def)
  have c: "calls two_subscribers = []"
    by (simp add: two_subscribers_def subscribe_def example_store_def createStore_def Let_def)
  show ?thesis
    using burst_runs_one_pass_per_call[OF m, of "[loop_on, open_on]"] m k c
    by (simp add: numeral_2_eq_2)
qed

section \<open>Properties of navigation\<close>

text \<open>
  Claim C5. In every store state, \<open>navigate v\<close> followed at once by \<open>goBack\<close>
  returns \<open>true\<close>, makes the view that was current before \<open>navigate\<close> the current
  view again, and leaves \<open>history\<close> as it was before \<open>navigate\<close> (so also at its
  length); \<open>goBack\<close> on an empty history returns \<open>false\<close> and changes nothing.
\<close>

theorem navigate_goBack:
  "fst (goBack (navigate v w)) = True
   \<and> view (state (snd (goBack (navigate v w)))) = view (state w)
   \<and> history (state (snd (goBack (navigate v w)))) = history (state w)
   \<and> length (history (state (snd (goBack (navigate v w))))) = length (history (state w))
   \<and> (history (state w) = [] \<longrightarrow> goBack w = (False, w))"
  by (simp add: goBack_def navigate_def state_setState spread_def empty_partial_def Let_def)

theorem navigate_goBack_witness:
  "history (state example_store) = []
   \<and> goBack example_store = (False, example_store)
   \<and> view (state (navigate calculator_view example_store)) = calculator_view
   \<and> history (state (navigate calculator_view example_store)) = [example_view]
   \<and> fst (goBack (navigate calculator_view example_store)) = True
   \<and> view (state (snd (goBack (navigate calculator_view example_store)))) = example_view
   \<and> history (state (snd (goBack (navigate calculator_view example_store)))) = []"
proof -
  have h: "history (state example_store) = []"
    by (simp add: example_store_def createStore_def example_state_def)
  have v: "view (state example_store) = example_view"
    by (simp add: example_store_def createStore_def example_state_def)
  have n: "view (state (navigate calculator_view example_store)) = calculator_view"
    "history (state (navigate calculator_view example_store)) = [example_view]"
    by (simp_all add: navigate_def state_setState spread_def empty_partial_def h v)
  show ?thesis
    using navigate_goBack[of calculator_view example_store] h v n by simp
qed

section \<open>Properties of the recent-commands list\<close>

lemma state_saveRecentCommands: "state (saveRecentCommands r w) = state w"
  by (simp add: saveRecentCommands_def)

lemma recent_addRecentCommand:
  "recentCommands (state (addRecentCommand i w))
     = take MAX_RECENT_COMMANDS (i # filter (\<lambda>j. j \<noteq> i) (recentCommands (state w)))"
  by (simp add: addRecentCommand_def Let_def state_saveRecentCommands state_setState
      spread_def empty_partial_def)

lemma recent_shape:
  "take MAX_RECENT_COMMANDS (i # xs) = i # take 9 xs"
  by (simp add: MAX_RECENT_COMMANDS_def take_Cons')



lemma recent_add_props:
  "hd (recentCommands (state (addRecentCommand i w))) = i"
  "count_list (recentCommands (state (addRecentCommand i w))) i = 1"
  "length (recentCommands (state (addRecentCommand i w))) \<le> 10"
  "distinct (recentCommands (state w)) \<Longrightarrow> distinct (recentCommands (state (addRecentCommand i w)))"
proof -
  let ?xs = "filter (\<lambda>j. j \<noteq> i) (recentCommands (state w))"
  have n: "i \<notin> set (take 9 ?xs)" by (auto dest: in_set_takeD)
  show "hd (recentCommands (state (addRecentCommand i w))) = i"
    by (simp add: recent_addRecentCommand recent_shape)
  show "count_list (recentCommands (state (addRecentCommand i w))) i = 1"
    using n by (simp add: recent_addRecentCommand recent_shape count_list_0_iff)
  show "length (recentCommands (state (addRecentCommand i w))) \<le> 10"
    by (simp add: recent_addRecentCommand recent_shape)
  show "distinct (recentCommands (state (addRecentCommand i w)))" if "distinct (recentCommands (state w))"
    using that n by (simp add: recent_addRecentCommand recent_shape distinct_take)
qed




lemma recent_init:
  "recentCommands (state (snd (init w)))
     = (if enableRecentCommands w then loadRecentCommands w else recentCommands (state w))"
  by (simp add: init_def Let_def state_setState spread_def empty_partial_def
       loadRecentCommands_def setState_def notifySubscribers_def)


























text \<open>
  \<open>init\<close> itself neither deduplicates nor truncates what it reads: after \<open>init\<close>
  the list is the stored one. That the stored list is free of duplicates and at
  most ten long is owed to its only writer, \<open>addRecentCommand\<close>; a stored list with
  a repeated id, which no run of the store writes, would be installed as it is.
\<close>

lemma init_copies_storage:
  "recentCommands (state (snd (init (createStore example_state True duplicated_env))))
     = [''devtools'', ''devtools'']"
  by (simp add: recent_init createStore_def loadRecentCommands_def duplicated_env_def
      example_env_def)



section \<open>Properties of selectCommand\<close>

lemma closed_setState: "closed (setState p w) = closed w"
  by (simp add: setState_def notifySubscribers_def Let_def)

lemma closed_addRecentCommand: "closed (addRecentCommand i w) = closed w"
  by (simp add: addRecentCommand_def saveRecentCommands_def closed_setState Let_def)

lemma recent_addRecentCommand_selected:
  "recentCommands (state (addRecentCommand i (w\<lparr>selected := l\<rparr>)))
     = recentCommands (state (addRecentCommand i w))"
  by (simp add: recent_addRecentCommand)

text \<open>
  Claim C10. Let \<open>selectCommand i\<close> find an action whose \<open>execute\<close> throws or whose
  promise rejects. Then the exception leaves the \<open>try\<close> block and is caught: the
  promise of \<open>selectCommand\<close> resolves, \<open>onClose\<close> is not called, and the list of
  recent commands is the one \<open>addRecentCommand i\<close> produced before \<open>execute\<close> ran,
  with \<open>i\<close> at its front exactly once; nothing rolls it back. (That update is made
  when recent commands are enabled; when they are disabled there is no update and
  the list is as before.)
\<close>

theorem selectCommand_execute_fails:
  assumes "findCommandById i (commands w) = Some c"
    and "cmd_type c = action"
    and "cmd_execute c = Throws \<or> cmd_execute c = Rejects"
  shows "fst (selectCommand_try i onClose c (w\<lparr>selected := selected w @ [(i, onClose)]\<rparr>))
    \<and> fst (selectCommand i onClose w) = Resolved
    \<and> closed (snd (selectCommand i onClose w)) = closed w
    \<and> (enableRecentCommands w \<longrightarrow>
          recentCommands (state (snd (selectCommand i onClose w)))
            = recentCommands (state (addRecentCommand i w))
          \<and> hd (recentCommands (state (snd (selectCommand i onClose w)))) = i
          \<and> count_list (recentCommands (state (snd (selectCommand i onClose w)))) i = 1)
    \<and> (\<not> enableRecentCommands w \<longrightarrow>
          recentCommands (state (snd (selectCommand i onClose w)))
            = recentCommands (state w))"
proof -
  let ?w0 = "w\<lparr>selected := selected w @ [(i, onClose)]\<rparr>"
  let ?w1 = "if enableRecentCommands w then addRecentCommand i ?w0 else ?w0"
  have t: "selectCommand_try i onClose c ?w0 = (True, ?w1)"
    using assms(2,3) by (auto simp: selectCommand_try_def)
  have s: "selectCommand i onClose w = (Resolved, ?w1)"
    using assms(1) t by (simp add: selectCommand_def Let_def)
  show ?thesis
    using recent_add_props(1,2)[where i = i and w = w]
    by (simp add: t s closed_addRecentCommand recent_addRecentCommand_selected)
qed

theorem selectCommand_execute_fails_witness:
  "findCommandById ''broken'' (commands broken_store) = Some broken_action
   \<and> cmd_type broken_action = action
   \<and> cmd_execute broken_action = Throws
   \<and> enableRecentCommands broken_store
   \<and> fst (selectCommand ''broken'' (Some 7) broken_store) = Resolved
   \<and> closed (snd (selectCommand ''broken'' (Some 7) broken_store)) = []
   \<and> recentCommands (state (snd (selectCommand ''broken'' (Some 7) broken_store)))
       = [''broken'']"
proof -
  have f: "findCommandById ''broken'' (commands broken_store) = Some broken_action"
    by (simp add: broken_store_def createStore_def broken_action_def)
  have a: "cmd_type broken_action = action" "cmd_execute broken_action = Throws"
    by (simp_all add: broken_action_def)
  have e: "enableRecentCommands broken_store" "closed broken_store = []"
    "recentCommands (state broken_store) = []"
    by (simp_all add: broken_store_def createStore_def example_state_def)
  show ?thesis
    using selectCommand_execute_fails[OF f a(1), of "Some 7"] f a e
    by (simp add: recent_addRecentCommand MAX_RECENT_COMMANDS_def)
qed

section \<open>Properties of the prefix-shortcut detector\<close>

lemma findCommandForPrefix_preorder:
  "findCommandForPrefix p xs = List.find (has_prefix p) (preorder xs)"
proof (induction p xs rule: findCommandForPrefix.induct)
  case (1 p)
  then show ?case by simp
next
  case (2 p cid nm ty kw px ch ssi ex rest)
  then show ?case
    by (cases ch) (auto simp: find_append has_prefix_def split: option.splits)
qed

lemma selected_setState: "selected (setState p w) = selected w"
  by (simp add: setState_def notifySubscribers_def Let_def)

lemma selected_addRecentCommand: "selected (addRecentCommand i w) = selected w"
  by (simp add: addRecentCommand_def saveRecentCommands_def selected_setState Let_def)

lemma selected_navigate: "selected (navigate v w) = selected w"
  by (simp add: navigate_def selected_setState)

lemma selected_try: "selected (snd (selectCommand_try i c cmd w)) = selected w"
  by (auto simp: selectCommand_try_def Let_def selected_addRecentCommand selected_navigate
      split: exec_outcome.splits option.splits)

lemma selected_selectCommand: "selected (snd (selectCommand i c w)) = selected w @ [(i, c)]"
proof (cases "findCommandById i (commands w)")
  case None
  then show ?thesis by (simp add: selectCommand_def Let_def)
next
  case (Some cmd)
  let ?w0 = "w\<lparr>selected := selected w @ [(i, c)]\<rparr>"
  have "snd (selectCommand i c w) = snd (selectCommand_try i c cmd ?w0)"
    using Some by (simp add: selectCommand_def Let_def split: prod.splits)
  then show ?thesis using selected_try[of i c cmd ?w0] by simp
qed

lemma trim_calc: "trim ''!calc '' = ''!calc''"
  by (simp add: trim_def is_whitespace_def)

lemma trim_calc_two: "trim ''!calc  '' = ''!calc''"
  by (simp add: trim_def is_whitespace_def)

lemma trim_space: "trim '' '' = []"
  by (simp add: trim_def is_whitespace_def)

lemma preorder_example_tree:
  "preorder example_tree
     = [Command ''dev-tools'' ''Dev Tools'' category None None
          (Some [devtools, calculator]) None Returns, devtools, calculator]"
  by (simp add: example_tree_def devtools_def calculator_def)

lemma find_calc:
  "List.find (has_prefix ''!calc'') (preorder example_tree) = Some calculator"
  by (simp add: preorder_example_tree has_prefix_def)
     (simp add: devtools_def calculator_def)

text \<open>
  Claim C7 fails as stated, in both directions. A query that is a single space,
  with a node that lists the empty string among its prefixes: the query ends with
  the separator and the pre-order search finds a node for the trimmed query, yet
  \<open>selectCommand\<close> is not called. And a query that ends with two spaces (not with a
  single one) does call \<open>selectCommand\<close>.
\<close>

theorem prefix_trigger_blank_and_double_space:
  "endsWith_space '' ''
   \<and> List.find (has_prefix (trim '' '')) (preorder (commands blank_store))
       = Some blank_command
   \<and> lastNavigationWasBack (state blank_store) \<noteq> Some True
   \<and> selected (snd (usePrefixTrigger '' '' 7 [] blank_store)) = []
   \<and> selected (snd (usePrefixTrigger ''!calc  '' 7 [] example_store))
       = [(''calculator'', Some 7)]"
proof -
  have b: "commands blank_store = [blank_command]"
    "lastNavigationWasBack (state blank_store) \<noteq> Some True"
    "selected blank_store = []"
    by (simp_all add: blank_store_def createStore_def example_state_def)
  have e: "commands example_store = example_tree"
    "lastNavigationWasBack (state example_store) \<noteq> Some True"
    "selected example_store = []"
    by (simp_all add: example_store_def createStore_def example_state_def example_env_def)
  have p: "List.find (has_prefix []) (preorder [blank_command]) = Some blank_command"
    by (simp add: blank_command_def has_prefix_def)
  have c: "cmd_id calculator = ''calculator''"
    by (simp add: calculator_def)
  have 1: "selected (snd (usePrefixTrigger '' '' 7 [] blank_store)) = []"
    using b by (simp add: usePrefixTrigger_def getState_def trim_space)
  have 2: "selected (snd (usePrefixTrigger ''!calc  '' 7 [] example_store))
             = [(''calculator'', Some 7)]"
    using e
    by (simp add: usePrefixTrigger_def getState_def trim_calc_two endsWith_space_def
        findCommandForPrefix_preorder find_calc selected_selectCommand c)
  show ?thesis
    using b(2) p 1 2 by (simp add: endsWith_space_def trim_space b(1))
qed

text \<open>
  Claim C7, amended. On a run of the detector for a query: when
  \<open>lastNavigationWasBack\<close> is set, it only clears the flag (no command is selected and
  the remembered query stays); otherwise, when the query equals the remembered one,
  it does nothing; otherwise it remembers the query and calls \<open>selectCommand\<close>, once
  and with \<open>onClose\<close> passed through, exactly when the last character of the query is
  a space, the query trimmed of white space at both ends is not empty, and some node
  of the command tree lists the trimmed query among its prefixes; the node selected
  is the first such node in pre-order. In every other case the store is unchanged.
\<close>

theorem prefix_trigger_cases:
  "(lastNavigationWasBack (state w) = Some True \<longrightarrow>
      fst (usePrefixTrigger q oc lq w) = lq
      \<and> state (snd (usePrefixTrigger q oc lq w))
          = (state w)\<lparr>lastNavigationWasBack := Some False\<rparr>
      \<and> selected (snd (usePrefixTrigger q oc lq w)) = selected w)
   \<and> (lastNavigationWasBack (state w) \<noteq> Some True \<and> q = lq \<longrightarrow>
        usePrefixTrigger q oc lq w = (lq, w))
   \<and> (lastNavigationWasBack (state w) \<noteq> Some True \<and> q \<noteq> lq \<longrightarrow>
        fst (usePrefixTrigger q oc lq w) = q
        \<and> (case (if endsWith_space q \<and> trim q \<noteq> []
                  then List.find (has_prefix (trim q)) (preorder (commands w))
                  else None) of
             None \<Rightarrow> snd (usePrefixTrigger q oc lq w) = w
           | Some n \<Rightarrow>
               snd (usePrefixTrigger q oc lq w) = snd (selectCommand (cmd_id n) (Some oc) w)
               \<and> selected (snd (usePrefixTrigger q oc lq w))
                   = selected w @ [(cmd_id n, Some oc)]))"
proof (intro conjI impI)
  assume "lastNavigationWasBack (state w) = Some True"
  then show "fst (usePrefixTrigger q oc lq w) = lq"
    "state (snd (usePrefixTrigger q oc lq w)) = (state w)\<lparr>lastNavigationWasBack := Some False\<rparr>"
    "selected (snd (usePrefixTrigger q oc lq w)) = selected w"
    by (simp_all add: usePrefixTrigger_def getState_def state_setState selected_setState
        spread_def empty_partial_def)
next
  assume "lastNavigationWasBack (state w) \<noteq> Some True \<and> q = lq"
  then show "usePrefixTrigger q oc lq w = (lq, w)"
    by (simp add: usePrefixTrigger_def getState_def)
next
  assume a: "lastNavigationWasBack (state w) \<noteq> Some True \<and> q \<noteq> lq"
  then show "fst (usePrefixTrigger q oc lq w) = q"
    by (simp add: usePrefixTrigger_def getState_def Let_def split: option.splits)
  show "case (if endsWith_space q \<and> trim q \<noteq> []
                  then List.find (has_prefix (trim q)) (preorder (commands w))
                  else None) of
             None \<Rightarrow> snd (usePrefixTrigger q oc lq w) = w
           | Some n \<Rightarrow>
               snd (usePrefixTrigger q oc lq w) = snd (selectCommand (cmd_id n) (Some oc) w)
               \<and> selected (snd (usePrefixTrigger q oc lq w))
                   = selected w @ [(cmd_id n, Some oc)]"
    using a
    by (simp add: usePrefixTrigger_def getState_def Let_def
        findCommandForPrefix_preorder[symmetric] selected_selectCommand trim_def
        split: option.splits)
qed

theorem prefix_trigger_cases_witness:
  "lastNavigationWasBack (state back_store) = Some True
   \<and> fst (usePrefixTrigger ''!calc '' 7 [] back_store) = []
   \<and> lastNavigationWasBack (state (snd (usePrefixTrigger ''!calc '' 7 [] back_store)))
       = Some False
   \<and> selected (snd (usePrefixTrigger ''!calc '' 7 [] back_store)) = []
   \<and> lastNavigationWasBack (state example_store) \<noteq> Some True
   \<and> usePrefixTrigger ''!calc '' 7 ''!calc '' example_store = (''!calc '', example_store)
   \<and> selected (snd (usePrefixTrigger ''!calc '' 7 [] example_store))
       = [(''calculator'', Some 7)]"
proof -
  have b: "lastNavigationWasBack (state back_store) = Some True"
    "selected back_store = []"
    by (simp_all add: back_store_def goBack_def navigate_def state_setState
        selected_setState spread_def empty_partial_def Let_def example_store_def
        createStore_def)
  have e: "commands example_store = example_tree"
    "lastNavigationWasBack (state example_store) \<noteq> Some True"
    "selected example_store = []"
    by (simp_all add: example_store_def createStore_def example_state_def example_env_def)
  have s: "endsWith_space ''!calc ''"
    by (simp add: endsWith_space_def)
  have c: "cmd_id calculator = ''calculator''"
    by (simp add: calculator_def)
  show ?thesis
    using prefix_trigger_cases[of back_store "''!calc ''" 7 "[]"]
      prefix_trigger_cases[of example_store "''!calc ''" 7 "''!calc ''"]
      prefix_trigger_cases[of example_store "''!calc ''" 7 "[]"]
      b e s
    by (simp add: trim_calc find_calc c selected_selectCommand)
qed

section \<open>Properties of keyboard navigation\<close>

lemma findIndex_range: "- 1 \<le> findIndex P xs \<and> findIndex P xs < int (length xs)"
  by (induction xs) (auto simp: Let_def)

lemma findIndex_holds: "0 \<le> findIndex P xs \<Longrightarrow> P (xs ! nat (findIndex P xs))"
proof (induction xs)
  case Nil
  then show ?case by simp
next
  case (Cons x xs)
  show ?case
  proof (cases "P x")
    case True
    then show ?thesis by simp
  next
    case False
    with Cons.prems have r: "0 \<le> findIndex P xs"
      by (auto simp: Let_def split: if_splits)
    then have "nat (findIndex P xs + 1) = Suc (nat (findIndex P xs))" by simp
    with False r Cons.IH show ?thesis by (simp add: Let_def)
  qed
qed

lemma current_index_range:
  "- 1 \<le> current_index w \<and> current_index w < int (length (item_list w))"
  using findIndex_range[of _ "item_list w"]
  by (auto simp: current_index_def split: option.splits)

lemma current_index_active:
  "0 \<le> current_index w \<Longrightarrow>
     activeId (state w) = Some (item_id (item_list w ! nat (current_index w)))"
  by (auto simp: current_index_def split: option.splits if_splits dest: findIndex_holds)

lemma handle_unfold:
  assumes "target_tagName e \<noteq> ''INPUT''" "target_tagName e \<noteq> ''TEXTAREA''"
    and "item_list w \<noteq> []" "key e = ''ArrowDown'' \<or> key e = ''ArrowUp''"
  shows "snd (handleGlobalKeyDown e w) =
     (let newIndex = calculateNextIndex (current_index w) (key e)
                       (int (length (item_list w))) (loop (state w))
      in if newIndex = current_index w \<or> newIndex < 0
            \<or> newIndex \<ge> int (length (item_list w))
         then w
         else setState
                (empty_partial
                   \<lparr>p_activeId := Some (Some (item_id (item_list w ! nat newIndex))),
                    p_scrollTrigger := Some (Some keyboard_trigger),
                    p_keyboardNavigationActive := Some (Some True),
                    p_navigationDirection :=
                      Some (Some (if key e = ''ArrowDown'' then down else up))\<rparr>) w)"
proof -
  have nk: "isNavigationKey (key e)" "key e \<noteq> ''Enter''"
    using assms(4) by (auto simp: isNavigationKey_def)
  have il: "(case items (state w) of None \<Rightarrow> [] | Some xs \<Rightarrow> xs) = item_list w"
    by (simp add: item_list_def)
  have ci: "(case activeId (state w) of None \<Rightarrow> - 1
             | Some a \<Rightarrow> if a = [] then - 1
                         else findIndex (\<lambda>item. item_id item = a) (item_list w))
            = current_index w"
    by (simp add: current_index_def)
  have len: "length (item_list w) \<noteq> 0"
    using assms(3) by simp
  show ?thesis
    unfolding handleGlobalKeyDown_def getState_def il Let_def ci
    using assms(1,2) nk len
    by (simp add: at_index_def)
qed


lemma keyboard_store_simps:
  "item_list (keyboard_store a lp) = three_items"
  "loop (state (keyboard_store a lp)) = lp"
  "activeId (state (keyboard_store a lp)) = a"
  by (simp_all add: keyboard_store_def createStore_def item_list_def example_state_def)

lemma current_index_keyboard_store:
  "current_index (keyboard_store None lp) = - 1"
  "current_index (keyboard_store (Some ''a'') lp) = 0"
  "current_index (keyboard_store (Some ''c'') lp) = 2"
  by (simp_all add: current_index_def keyboard_store_simps)
     (simp_all add: three_items_def)

text \<open>
  When no item is active the handler takes \<open>-1\<close> as the current index, which is
  neither the last index nor index 0: move-down then goes to index 0, and move-up
  goes to the last index with \<open>loop = true\<close> and stays at \<open>-1\<close> otherwise, which
  the handler's guard \<open>newIndex < 0\<close> turns into a no-op.
\<close>

lemma calculateNextIndex_no_active_item:
  "0 < n \<Longrightarrow> calculateNextIndex (- 1) ''ArrowDown'' n lp = 0"
  "calculateNextIndex (- 1) ''ArrowUp'' n lp = (if lp then n - 1 else - 1)"
  by (simp_all add: calculateNextIndex_def)

text \<open>
  Claim C8. Let a key event reach the handler from outside a text input, with a
  non-empty item list. Move-down at the last index: with \<open>loop = false\<close> the handler
  leaves the store as it is (no state change, nothing queued); with \<open>loop = true\<close>
  the computed index is 0 and the first item is the active one afterwards. Move-up
  at index 0: the same, with the last index and the last item. In each of these
  cases the computed new index lies within \<open>[0, length - 1]\<close>; indeed it does so
  for every key whenever the current index is that of an item.
\<close>

theorem keyboard_move_at_ends:
  assumes "target_tagName e \<noteq> ''INPUT''" and "target_tagName e \<noteq> ''TEXTAREA''"
    and "item_list w \<noteq> []"
  shows
    "(key e = ''ArrowDown'' \<and> current_index w = int (length (item_list w)) - 1 \<longrightarrow>
        (\<not> loop (state w) \<longrightarrow> snd (handleGlobalKeyDown e w) = w)
        \<and> (loop (state w) \<longrightarrow>
             calculateNextIndex (current_index w) (key e) (int (length (item_list w)))
               (loop (state w)) = 0
             \<and> activeId (state (snd (handleGlobalKeyDown e w)))
                 = Some (item_id (hd (item_list w))))
        \<and> 0 \<le> calculateNextIndex (current_index w) (key e) (int (length (item_list w)))
                (loop (state w))
        \<and> calculateNextIndex (current_index w) (key e) (int (length (item_list w)))
             (loop (state w)) \<le> int (length (item_list w)) - 1)
     \<and> (key e = ''ArrowUp'' \<and> current_index w = 0 \<longrightarrow>
        (\<not> loop (state w) \<longrightarrow> snd (handleGlobalKeyDown e w) = w)
        \<and> (loop (state w) \<longrightarrow>
             calculateNextIndex (current_index w) (key e) (int (length (item_list w)))
               (loop (state w)) = int (length (item_list w)) - 1
             \<and> activeId (state (snd (handleGlobalKeyDown e w)))
                 = Some (item_id (last (item_list w))))
        \<and> 0 \<le> calculateNextIndex (current_index w) (key e) (int (length (item_list w)))
                (loop (state w))
        \<and> calculateNextIndex (current_index w) (key e) (int (length (item_list w)))
             (loop (state w)) \<le> int (length (item_list w)) - 1)
     \<and> (0 \<le> current_index w \<longrightarrow>
          0 \<le> calculateNextIndex (current_index w) (key e) (int (length (item_list w)))
                (loop (state w))
          \<and> calculateNextIndex (current_index w) (key e) (int (length (item_list w)))
                (loop (state w)) \<le> int (length (item_list w)) - 1)"
proof -
  let ?its = "item_list w"
  let ?n = "int (length ?its)"
  let ?ci = "current_index w"
  let ?new = "calculateNextIndex ?ci (key e) ?n (loop (state w))"
  have n: "1 \<le> ?n"
    using assms(3) by (cases ?its) simp_all
  have r: "- 1 \<le> ?ci" "?ci < ?n"
    using current_index_range[of w] by simp_all
  have range: "0 \<le> ?new \<and> ?new \<le> ?n - 1" if "0 \<le> ?ci"
    using that n r by (auto simp: calculateNextIndex_def)
  have range_last: "0 \<le> ?new \<and> ?new \<le> ?n - 1" if "?ci = ?n - 1"
  proof -
    have "0 \<le> ?ci" using that n by linarith
    then show ?thesis by (rule range)
  qed
  have range_first: "0 \<le> ?new \<and> ?new \<le> ?n - 1" if "?ci = 0"
  proof -
    have "0 \<le> ?ci" using that by linarith
    then show ?thesis by (rule range)
  qed
  have hd: "?its ! 0 = hd ?its" and lst: "?its ! nat (?n - 1) = last ?its"
    using assms(3) by (simp_all add: hd_conv_nth last_conv_nth nat_diff_distrib')
  have down: "(\<not> loop (state w) \<longrightarrow> snd (handleGlobalKeyDown e w) = w)
      \<and> (loop (state w) \<longrightarrow> ?new = 0
           \<and> activeId (state (snd (handleGlobalKeyDown e w))) = Some (item_id (hd ?its)))"
    if k: "key e = ''ArrowDown''" and c: "?ci = ?n - 1"
  proof -
    have u: "snd (handleGlobalKeyDown e w) =
       (if ?new = ?ci \<or> ?new < 0 \<or> ?new \<ge> ?n then w
        else setState
               (empty_partial
                  \<lparr>p_activeId := Some (Some (item_id (?its ! nat ?new))),
                   p_scrollTrigger := Some (Some keyboard_trigger),
                   p_keyboardNavigationActive := Some (Some True),
                   p_navigationDirection := Some (Some down)\<rparr>) w)"
      using handle_unfold[OF assms(1,2,3)] k by (simp add: Let_def)
    have new: "?new = (if loop (state w) then 0 else ?ci)"
      using k c by (simp add: calculateNextIndex_def)
    have "0 \<le> ?ci" using c assms(3) by simp
    then have a: "activeId (state w) = Some (item_id (?its ! nat ?ci))"
      by (rule current_index_active)
    show ?thesis
    proof (cases "loop (state w)")
      case False
      then show ?thesis using u new by simp
    next
      case True
      then have z: "?new = 0" using new by simp
      show ?thesis
      proof (cases "?ci = 0")
        case True
        then show ?thesis
          using u z a hd assms(3) \<open>loop (state w)\<close> by simp
      next
        case False
        then show ?thesis
          using u z n hd assms(3) \<open>loop (state w)\<close>
          by (simp add: state_setState spread_def empty_partial_def)
      qed
    qed
  qed
  have up: "(\<not> loop (state w) \<longrightarrow> snd (handleGlobalKeyDown e w) = w)
      \<and> (loop (state w) \<longrightarrow> ?new = ?n - 1
           \<and> activeId (state (snd (handleGlobalKeyDown e w))) = Some (item_id (last ?its)))"
    if k: "key e = ''ArrowUp''" and c: "?ci = 0"
  proof -
    have u: "snd (handleGlobalKeyDown e w) =
       (if ?new = ?ci \<or> ?new < 0 \<or> ?new \<ge> ?n then w
        else setState
               (empty_partial
                  \<lparr>p_activeId := Some (Some (item_id (?its ! nat ?new))),
                   p_scrollTrigger := Some (Some keyboard_trigger),
                   p_keyboardNavigationActive := Some (Some True),
                   p_navigationDirection := Some (Some up)\<rparr>) w)"
      using handle_unfold[OF assms(1,2,3)] k by (simp add: Let_def)
    have new: "?new = (if loop (state w) then ?n - 1 else ?ci)"
      using k c by (simp add: calculateNextIndex_def)
    have "0 \<le> ?ci" using c by simp
    then have a: "activeId (state w) = Some (item_id (?its ! nat ?ci))"
      by (rule current_index_active)
    show ?thesis
    proof (cases "loop (state w)")
      case False
      then show ?thesis using u new by simp
    next
      case True
      then have z: "?new = ?n - 1" using new by simp
      show ?thesis
      proof (cases "?n = 1")
        case True
        then show ?thesis
          using u z a c lst assms(3) \<open>loop (state w)\<close> by simp
      next
        case False
        then show ?thesis
          using u z n c lst assms(3) \<open>loop (state w)\<close>
          by (simp add: state_setState spread_def empty_partial_def)
      qed
    qed
  qed
  show ?thesis
    using down up range range_last range_first by blast
qed

theorem keyboard_move_at_ends_witness:
  "target_tagName (key_event ''ArrowDown'') \<noteq> ''INPUT''
   \<and> target_tagName (key_event ''ArrowDown'') \<noteq> ''TEXTAREA''
   \<and> item_list (keyboard_store (Some ''c'') False) \<noteq> []
   \<and> current_index (keyboard_store (Some ''c'') False)
       = int (length (item_list (keyboard_store (Some ''c'') False))) - 1
   \<and> snd (handleGlobalKeyDown (key_event ''ArrowDown'') (keyboard_store (Some ''c'') False))
       = keyboard_store (Some ''c'') False
   \<and> activeId (state (snd (handleGlobalKeyDown (key_event ''ArrowDown'')
                              (keyboard_store (Some ''c'') True)))) = Some ''a''
   \<and> current_index (keyboard_store (Some ''a'') True) = 0
   \<and> activeId (state (snd (handleGlobalKeyDown (key_event ''ArrowUp'')
                              (keyboard_store (Some ''a'') True)))) = Some ''c''
   \<and> snd (handleGlobalKeyDown (key_event ''ArrowUp'') (keyboard_store (Some ''a'') False))
       = keyboard_store (Some ''a'') False
   \<and> calculateNextIndex 2 ''ArrowDown'' 3 True = 0
   \<and> calculateNextIndex 0 ''ArrowUp'' 3 True = 2"
proof -
  have t: "target_tagName (key_event k) \<noteq> ''INPUT''"
    "target_tagName (key_event k) \<noteq> ''TEXTAREA''" "key (key_event k) = k" for k
    by (simp_all add: key_event_def)
  have i: "item_list (keyboard_store a lp) \<noteq> []" for a lp
    by (simp add: keyboard_store_simps three_items_def)
  have l: "three_items \<noteq> []" "int (length three_items) = 3" "hd three_items = \<lparr>item_id = ''a'', item_index = 0\<rparr>"
    "last three_items = \<lparr>item_id = ''c'', item_index = 2\<rparr>"
    by (simp_all add: three_items_def)
  show ?thesis
    using keyboard_move_at_ends[OF t(1,2) i, of "''ArrowDown''" "Some ''c''" False]
      keyboard_move_at_ends[OF t(1,2) i, of "''ArrowDown''" "Some ''c''" True]
      keyboard_move_at_ends[OF t(1,2) i, of "''ArrowUp''" "Some ''a''" True]
      keyboard_move_at_ends[OF t(1,2) i, of "''ArrowUp''" "Some ''a''" False]
    by (simp add: t i l keyboard_store_simps current_index_keyboard_store)
qed

section \<open>Properties of ranking\<close>

lemma insert_by_insort:
  "insert_by (\<lambda>a b. f b - f a) x ys = insort_key (\<lambda>a. - f a) x ys"
  by (induction ys) auto

lemma sort_by_sort_key:
  "sort_by (\<lambda>a b. f b - f a) xs = sort_key (\<lambda>a. - f a) xs"
proof -
  have "insert_by (\<lambda>a b. f b - f a) = insort_key (\<lambda>a. - f a)"
    by (intro ext) (rule insert_by_insort)
  then show ?thesis by (simp add: sort_by_def sort_key_def)
qed

lemma insort_key_map:
  "insort_key f (g x) (map g ys) = map g (insort_key (\<lambda>a. f (g a)) x ys)"
  by (induction ys) auto

lemma sort_key_map:
  "sort_key f (map g xs) = map g (sort_key (\<lambda>a. f (g a)) xs)"
  by (induction xs) (simp_all add: insort_key_map)

lemma slice0_map: "slice0 n (map g xs) = map g (slice0 n xs)"
  by (simp add: slice0_def take_map)

lemma fold_max: "fold (\<lambda>s sc. max sc (h s)) xs (a::real) = Max (insert a (h ` set xs))"
proof (induction xs arbitrary: a)
  case Nil
  then show ?case by simp
next
  case (Cons x xs)
  have "Max (insert (max a (h x)) (h ` set xs)) = Max (insert a (insert (h x) (h ` set xs)))"
    by (cases "xs = []") (auto simp: max.assoc max.commute max.left_commute)
  then show ?case by (simp add: Cons.IH)
qed

lemma fold_max_opt:
  "(case kw of None \<Rightarrow> a
    | Some ks \<Rightarrow> if length ks > 0 then fold (\<lambda>s sc. max sc (h s)) ks a else a)
   = Max (insert (a::real) (h ` set (case kw of None \<Rightarrow> [] | Some ks \<Rightarrow> ks)))"
  by (cases kw) (auto simp: fold_max)

lemma Max_insert_Max:
  "finite A \<Longrightarrow> finite B \<Longrightarrow>
     Max (insert (Max (insert (a::real) A)) B) = Max (insert a (A \<union> B))"
proof -
  assume f: "finite A" "finite B"
  have "Max (insert a (A \<union> B)) = Max (insert a A \<union> insert (Max (insert a A)) B)"
  proof (rule antisym)
    show "Max (insert a (A \<union> B)) \<le> Max (insert a A \<union> insert (Max (insert a A)) B)"
      using f by (intro Max_mono) auto
    show "Max (insert a A \<union> insert (Max (insert a A)) B) \<le> Max (insert a (A \<union> B))"
      using f by (auto intro!: Max.boundedI Max_ge)
  qed
  also have "\<dots> = Max (insert (Max (insert a A)) B)"
  proof (rule antisym)
    show "Max (insert a A \<union> insert (Max (insert a A)) B) \<le> Max (insert (Max (insert a A)) B)"
      using f by (auto intro!: Max.boundedI intro: order_trans[OF Max_ge[of "insert a A"] Max_ge])
    show "Max (insert (Max (insert a A)) B) \<le> Max (insert a A \<union> insert (Max (insert a A)) B)"
      using f by (intro Max_mono) auto
  qed
  finally show ?thesis by simp
qed

lemma item_score_Max:
  "item_score cs q c = Max ((\<lambda>s. cs s q) ` set (item_strings c))"
proof -
  let ?h = "\<lambda>s. cs s q"
  let ?ks = "case cmd_keywords c of None \<Rightarrow> [] | Some ks \<Rightarrow> ks"
  let ?ps = "if cmd_type c = action \<or> cmd_type c = portal
             then (case cmd_prefixes c of None \<Rightarrow> [] | Some ps \<Rightarrow> ps) else []"
  let ?s1 = "Max (insert (?h (cmd_name c)) (?h ` set ?ks))"
  have k: "(case cmd_keywords c of None \<Rightarrow> ?h (cmd_name c)
            | Some ks \<Rightarrow> if length ks > 0
                        then fold (\<lambda>keyword sc. max sc (cs keyword q)) ks (?h (cmd_name c))
                        else ?h (cmd_name c)) = ?s1"
    by (rule fold_max_opt)
  have p: "(case cmd_prefixes c of None \<Rightarrow> ?s1
            | Some ps \<Rightarrow> if length ps > 0
                        then fold (\<lambda>p sc. max sc (cs p q)) ps ?s1
                        else ?s1)
           = Max (insert ?s1 (?h ` set (case cmd_prefixes c of None \<Rightarrow> [] | Some ps \<Rightarrow> ps)))"
    by (rule fold_max_opt)
  have "item_score cs q c = Max (insert ?s1 (?h ` set ?ps))"
    apply (simp only: item_score_def Let_def)
    apply (simp only: k)
    apply (simp only: p)
    apply (cases "cmd_type c = action \<or> cmd_type c = portal")
     apply (simp_all only: if_True if_False list.set image_empty Max_singleton)
    done
  also have "\<dots> = Max (insert (?h (cmd_name c)) (?h ` set ?ks \<union> ?h ` set ?ps))"
    using Max_insert_Max[of "?h ` set ?ks" "?h ` set ?ps" "?h (cmd_name c)"]
    by (simp only: finite_imageI finite_set simp_thms)
  also have "insert (?h (cmd_name c)) (?h ` set ?ks \<union> ?h ` set ?ps)
               = ?h ` set (item_strings c)"
    by (simp only: item_strings_def list.set set_append image_insert image_Un)
  finally show ?thesis .
qed

lemma searchWithCommandScore_sort_key:
  "searchWithCommandScore cs its q n
     = slice0 n (sort_key (\<lambda>c. - item_score cs q c)
                   (filter (\<lambda>c. item_score cs q c \<ge> 0.1) its))"
proof -
  let ?g = "\<lambda>item. (item, item_score cs q item)"
  have f: "filter (\<lambda>(item, score). score \<ge> 0.1) (map ?g its)
             = map ?g (filter (\<lambda>c. item_score cs q c \<ge> 0.1) its)"
    by (simp add: filter_map o_def)
  show ?thesis
    unfolding searchWithCommandScore_def Let_def f
    by (simp add: sort_by_sort_key[where f = snd] sort_key_map slice0_map o_def)
qed

lemma full_slice: "length xs \<le> n \<Longrightarrow> slice0 (int n) xs = xs"
  by (simp add: slice0_def)

lemma fold_upd:
  "fold (\<lambda>k m'. m'(k \<mapsto> v)) ks m s = (if s \<in> set ks then Some v else m s)"
  by (induction ks arbitrary: m) auto

lemma set_item_apply:
  "set_item item m s = (if s \<in> set (item_strings item) then Some item else m s)"
proof -
  have k: "(case cmd_keywords item of None \<Rightarrow> m1
            | Some kws \<Rightarrow> fold (\<lambda>kw m'. m'(kw \<mapsto> item)) kws m1) s
           = (if s \<in> set (case cmd_keywords item of None \<Rightarrow> [] | Some kws \<Rightarrow> kws)
              then Some item else m1 s)" for m1
    by (cases "cmd_keywords item") (simp_all add: fold_upd)
  have p: "(case cmd_prefixes item of None \<Rightarrow> m2
            | Some ps \<Rightarrow> fold (\<lambda>p m'. m'(p \<mapsto> item)) ps m2) s
           = (if s \<in> set (case cmd_prefixes item of None \<Rightarrow> [] | Some ps \<Rightarrow> ps)
              then Some item else m2 s)" for m2
    by (cases "cmd_prefixes item") (simp_all add: fold_upd)
  show ?thesis
  proof (cases "cmd_type item = action \<or> cmd_type item = portal")
    case True
    then show ?thesis
      by (simp only: set_item_def Let_def item_strings_def if_True p k)
         (simp only: list.set set_append Un_iff insert_iff fun_upd_apply split: if_splits, blast)
  next
    case False
    then show ?thesis
      by (simp only: set_item_def Let_def item_strings_def if_False k)
         (simp only: list.set set_append Un_iff insert_iff fun_upd_apply empty_iff
            split: if_splits, blast)
  qed
qed

lemma fold_set_item:
  "fold set_item its m s
     = (case List.find (\<lambda>item. s \<in> set (item_strings item)) (rev its) of
          None \<Rightarrow> m s
        | Some item \<Rightarrow> Some item)"
proof (induction its arbitrary: m)
  case Nil
  then show ?case by simp
next
  case (Cons a its)
  let ?P = "\<lambda>item. s \<in> set (item_strings item)"
  have "fold set_item (a # its) m s = fold set_item its (set_item a m) s"
    by simp
  also have "\<dots> = (case List.find ?P (rev its) of
                      None \<Rightarrow> set_item a m s | Some item \<Rightarrow> Some item)"
    by (rule Cons.IH)
  also have "\<dots> = (case List.find ?P (rev (a # its)) of
                      None \<Rightarrow> m s | Some item \<Rightarrow> Some item)"
    by (cases "List.find ?P (rev its)") (simp_all add: find_append set_item_apply)
  finally show ?case .
qed

lemma stringToItemMap_find:
  "stringToItemMap its s = List.find (\<lambda>item. s \<in> set (item_strings item)) (rev its)"
  unfolding stringToItemMap_def fold_set_item
  by (cases "List.find (\<lambda>item. s \<in> set (item_strings item)) (rev its)") simp_all

text \<open>
  Claim C3 fails as stated: of two commands that share the name \<open>Open\<close>, the
  shared string is mapped to the second one, and a query that matches the string
  returns the second command, not the first.
\<close>

theorem shared_string_maps_to_last_item:
  "searchWithFuse (Some exact_fuse) [first_open, second_open] ''Open'' 50 = Inr [second_open]
   \<and> stringToItemMap [first_open, second_open] ''Open'' = Some second_open
   \<and> first_open \<noteq> second_open
   \<and> ''Open'' \<in> set (item_strings first_open)"
proof -
  have s: "item_strings first_open = [''Open'']" "item_strings second_open = [''Open'']"
    by (simp_all add: item_strings_def first_open_def second_open_def)
  have m: "stringToItemMap [first_open, second_open] ''Open'' = Some second_open"
    by (simp add: stringToItemMap_find s)
  have r: "exact_fuse (searchableStrings [first_open, second_open]) ''Open''
             = [(''Open'', Some 0), (''Open'', Some 0)]"
    by (simp add: searchableStrings_def s exact_fuse_def)
  have "searchWithFuse (Some exact_fuse) [first_open, second_open] ''Open'' 50 = Inr [second_open]"
    by (simp add: searchWithFuse_def r m sort_by_def slice0_def Let_def)
  moreover have "first_open \<noteq> second_open"
    by (simp add: first_open_def second_open_def)
  ultimately show ?thesis using m s by simp
qed

text \<open>
  Claim C3, amended. In the fuzzy-index algorithm, when two or more items share a
  searchable string (a name, a keyword, or a prefix of an action or portal), the
  string is mapped to the last such item in input order: each \<open>set\<close> on the map
  overwrites the earlier entry. A single query result for the string therefore
  yields that last item (and nothing when no item has the string).
\<close>

theorem stringToItemMap_last_wins:
  "stringToItemMap its s = List.find (\<lambda>item. s \<in> set (item_strings item)) (rev its)
   \<and> collect_results (stringToItemMap its) [(s, Some d)] [] []
       = (case List.find (\<lambda>item. s \<in> set (item_strings item)) (rev its) of
            None \<Rightarrow> []
          | Some item \<Rightarrow> [(item, max 0 (min 1 (1 - d)))])"
proof -
  show ?thesis
    using stringToItemMap_find[of its s]
    by (cases "List.find (\<lambda>item. s \<in> set (item_strings item)) (rev its)") simp_all
qed

text \<open>
  Claim C4. For every item list and every non-empty query, the lexical-score
  algorithm returns only items whose score is at least 0.1, the score of an item
  being the maximum of the library score over its name, its keywords and, for an
  action or portal, its prefixes; the result is in descending order of score; it is
  \<open>slice(0, maxResults)\<close> of the full ranking, in which the items of any one score
  keep their input order (ties are broken by input order); and, \<open>maxResults\<close> being
  a count (not negative), it is the first \<open>maxResults\<close> entries of that ranking and
  has at most \<open>maxResults\<close> entries.
\<close>

theorem lexical_search_result:
  assumes "q \<noteq> []"
  shows "(\<forall>c \<in> set (searchItems cs fm its q commandscore maxResults).
            item_score cs q c \<ge> 0.1
            \<and> item_score cs q c = Max ((\<lambda>s. cs s q) ` set (item_strings c)))
    \<and> sorted_wrt (\<lambda>a b. item_score cs q a \<ge> item_score cs q b)
          (searchItems cs fm its q commandscore maxResults)
    \<and> searchItems cs fm its q commandscore maxResults
        = slice0 maxResults (searchItems cs fm its q commandscore (int (length its)))
    \<and> (\<forall>v. filter (\<lambda>c. item_score cs q c = v)
               (searchItems cs fm its q commandscore (int (length its)))
             = filter (\<lambda>c. item_score cs q c = v)
                 (filter (\<lambda>c. item_score cs q c \<ge> 0.1) its))
    \<and> (0 \<le> maxResults \<longrightarrow>
          searchItems cs fm its q commandscore maxResults
            = take (nat maxResults) (searchItems cs fm its q commandscore (int (length its)))
          \<and> int (length (searchItems cs fm its q commandscore maxResults)) \<le> maxResults)"
proof -
  let ?sc = "item_score cs q"
  let ?kept = "filter (\<lambda>c. ?sc c \<ge> 0.1) its"
  let ?ranked = "sort_key (\<lambda>c. - ?sc c) ?kept"
  have res: "searchItems cs fm its q commandscore maxResults = slice0 maxResults ?ranked"
    using assms by (simp add: searchItems_def searchWithCommandScore_sort_key)
  have "\<exists>k. slice0 maxResults ?ranked = take k ?ranked"
    by (auto simp: slice0_def)
  then obtain k where k: "slice0 maxResults ?ranked = take k ?ranked" ..
  have "length ?ranked \<le> length its"
    by simp
  then have full: "searchItems cs fm its q commandscore (int (length its)) = ?ranked"
    using assms(1) by (simp add: searchItems_def searchWithCommandScore_sort_key full_slice)
  have "set (take k ?ranked) \<subseteq> set ?kept"
    using set_take_subset[of k ?ranked] by simp
  then have thr: "\<forall>c \<in> set (slice0 maxResults ?ranked).
      ?sc c \<ge> 0.1 \<and> ?sc c = Max ((\<lambda>s. cs s q) ` set (item_strings c))"
    unfolding k using item_score_Max[of cs q] by auto
  have "sorted (map (\<lambda>c. - ?sc c) ?ranked)"
    by (rule sorted_sort_key)
  then have "sorted_wrt (\<lambda>a b. ?sc a \<ge> ?sc b) ?ranked"
    by (simp add: sorted_wrt_map)
  then have srt: "sorted_wrt (\<lambda>a b. ?sc a \<ge> ?sc b) (slice0 maxResults ?ranked)"
    unfolding k by (rule sorted_wrt_take)
  have stable: "filter (\<lambda>c. ?sc c = v) ?ranked = filter (\<lambda>c. ?sc c = v) ?kept" for v
    using sort_key_stable[of "\<lambda>c. - ?sc c" "- v" ?kept] by simp
  have len: "slice0 maxResults ?ranked = take (nat maxResults) ?ranked
      \<and> int (length (slice0 maxResults ?ranked)) \<le> maxResults" if "0 \<le> maxResults"
    using that by (simp add: slice0_def)
  show ?thesis
    unfolding res full using thr srt stable len by blast
qed

theorem lexical_search_result_witness:
  "''!calc'' \<noteq> [] \<and> (0::int) \<le> 50
   \<and> searchItems exact_score None [devtools, calculator] ''!calc'' commandscore 50 = [calculator]
   \<and> int (length (searchItems exact_score None [devtools, calculator] ''!calc'' commandscore 50)) \<le> 50
   \<and> sorted_wrt (\<lambda>a b. item_score exact_score ''!calc'' a \<ge> item_score exact_score ''!calc'' b)
          (searchItems exact_score None [devtools, calculator] ''!calc'' commandscore 50)"
proof -
  have q: "''!calc'' \<noteq> []" by simp
  have z: "(0::int) \<le> 50" by simp
  have d: "item_score exact_score ''!calc'' devtools = 0"
    by (simp add: item_score_def devtools_def exact_score_def)
  have c: "item_score exact_score ''!calc'' calculator = 1"
    by (simp add: item_score_def calculator_def exact_score_def)
  have r: "searchItems exact_score None [devtools, calculator] ''!calc'' commandscore 50 = [calculator]"
    by (simp add: searchItems_def searchWithCommandScore_sort_key d c slice0_def)
  show ?thesis
    using lexical_search_result[OF q, of exact_score None "[devtools, calculator]" 50] r z
    by simp
qed

end
